theory Spec2Isabelle
  imports Complex_Main
begin

section \<open>Values, errors and the library functions the code calls\<close>

text \<open>
  Python values as they occur in the JSON the CRM returns for a deal property. Truthiness is
  Python's: \<open>None\<close>, \<open>False\<close>, \<open>0\<close> and the empty string are falsy.
\<close>

datatype pyval = PNone | PBool bool | PInt int | PStr string

fun truthy :: "pyval \<Rightarrow> bool" where
  "truthy PNone = False"
| "truthy (PBool b) = b"
| "truthy (PInt n) = (n \<noteq> 0)"
| "truthy (PStr s) = (s \<noteq> [])"

text \<open>Exceptions are values. \<open>RequestException\<close> stands for the network-level exceptions of
  the HTTP library, \<open>HTTPError\<close> for the one \<open>raise_for_status\<close> raises (itself a request
  exception), \<open>GenericException\<close> for a plain \<open>Exception(msg)\<close>.\<close>

datatype py_error =
    ValueError
  | TypeError
  | AttributeError
  | RequestException string
  | HTTPError int
  | GenericException string

text \<open>
  The builtins \<open>float\<close>, \<open>int\<close> and \<open>datetime.fromisoformat\<close> are not code of the repository:
  they are parameters. A parsed float is a real number (rounding is not modelled), a parsed
  timestamp is a value of the type parameter \<open>'d\<close>.
\<close>

record 'd builtins =
  py_float :: "pyval \<Rightarrow> py_error + real"
  py_int :: "pyval \<Rightarrow> py_error + int"
  fromisoformat :: "string \<Rightarrow> py_error + 'd"

section \<open>Raw deals and transformed rows\<close>

type_synonym props = "(string \<times> pyval) list"

record deal =
  deal_id_raw :: "pyval option"
  deal_properties :: "props option"
  deal_archived :: "bool option"

text \<open>\<open>d.get(k)\<close>: the value, or \<open>None\<close> when the key is absent.\<close>

definition pget :: "props \<Rightarrow> string \<Rightarrow> pyval" where
  "pget properties k = (case map_of properties k of None \<Rightarrow> PNone | Some v \<Rightarrow> v)"

text \<open>The output row. The two fields that are not a function of the input (the fresh
  \<open>uuid4\<close> identifier and the extraction time) are left out; no control flow reads them.\<close>

record 'd row =
  r_deal_id :: pyval
  r_deal_name :: pyval
  r_amount :: "real option"
  r_deal_stage :: pyval
  r_close_date :: "'d option"
  r_pipeline :: pyval
  r_deal_type :: pyval
  r_hubspot_owner_id :: pyval
  r_deal_stage_probability :: "real option"
  r_description :: pyval
  r_analytics_source :: pyval
  r_num_associated_contacts :: int
  r_priority :: pyval
  r_next_step :: pyval
  r_forecast_amount :: "real option"
  r_forecast_probability :: "real option"
  r_hubspot_created_at :: "'d option"
  r_hubspot_updated_at :: "'d option"
  r_archived :: bool
  r_raw_properties :: props
  r_scan_id :: string
  r_tenant_id :: "string option"
  r_page_number :: int
  r_source_service :: string

text \<open>\<open>try: ... except (ValueError, TypeError): x = None\<close>: these two exceptions become
  \<open>None\<close>, any other one propagates.\<close>

definition except_value_type :: "py_error + 'a \<Rightarrow> py_error + 'a option" where
  "except_value_type r =
     (case r of
        Inr x \<Rightarrow> Inr (Some x)
      | Inl e \<Rightarrow> if e = ValueError \<or> e = TypeError then Inr None else Inl e)"

text \<open>\<open>date_str.replace('Z', '+00:00')\<close>\<close>

definition replace_Z :: "string \<Rightarrow> string" where
  "replace_Z s = concat (map (\<lambda>c. if c = CHR ''Z'' then ''+00:00'' else [c]) s)"

text \<open>\<open>parse_date\<close>: a falsy value gives \<open>None\<close>; a string is parsed, a parse failure gives
  \<open>None\<close>; a truthy value that is not a string has no \<open>replace\<close> method, and the
  \<open>AttributeError\<close> is not among the exceptions caught.\<close>

definition parse_date :: "'d builtins \<Rightarrow> pyval \<Rightarrow> py_error + 'd option" where
  "parse_date bi date_str =
     (if \<not> truthy date_str then Inr None
      else case date_str of
             PStr s \<Rightarrow> except_value_type (fromisoformat bi (replace_Z s))
           | _ \<Rightarrow> Inl AttributeError)"

text \<open>\<open>float(p.get(k)) if p.get(k) else None\<close>, with no handler around it.\<close>

definition float_if_present :: "'d builtins \<Rightarrow> pyval \<Rightarrow> py_error + real option" where
  "float_if_present bi v =
     (if truthy v then (case py_float bi v of Inl e \<Rightarrow> Inl e | Inr x \<Rightarrow> Inr (Some x))
      else Inr None)"

text \<open>\<open>int(p.get(k, 0)) if p.get(k) else 0\<close>, with no handler around it.\<close>

definition int_if_present :: "'d builtins \<Rightarrow> pyval \<Rightarrow> py_error + int" where
  "int_if_present bi v = (if truthy v then py_int bi v else Inr 0)"

text \<open>
  \<open>transform_hubspot_deal\<close>. The amount and the stage probability are computed first, each
  inside its handler; the entries of the returned dictionary are then evaluated in the order
  they are written, so the first one that raises decides the exception.
\<close>

definition bind_err :: "'e + 'a \<Rightarrow> ('a \<Rightarrow> 'e + 'b) \<Rightarrow> 'e + 'b" where
  "bind_err r f = (case r of Inl e \<Rightarrow> Inl e | Inr x \<Rightarrow> f x)"

definition transform_hubspot_deal ::
  "'d builtins \<Rightarrow> deal \<Rightarrow> string \<Rightarrow> string option \<Rightarrow> int \<Rightarrow> py_error + 'd row" where
  "transform_hubspot_deal bi deal scan_id tenant_id page_number =
    (let properties = (case deal_properties deal of None \<Rightarrow> [] | Some p \<Rightarrow> p) in
     bind_err (if truthy (pget properties ''amount'')
               then except_value_type (py_float bi (pget properties ''amount''))
               else Inr None) (\<lambda>amount.
     bind_err (if truthy (pget properties ''hs_deal_stage_probability'')
               then except_value_type
                      (bind_err (py_float bi (pget properties ''hs_deal_stage_probability''))
                         (\<lambda>x. Inr (x / 100)))
               else Inr None) (\<lambda>probability.
     bind_err (parse_date bi (pget properties ''closedate'')) (\<lambda>close_date.
     bind_err (int_if_present bi (pget properties ''num_associated_contacts'')) (\<lambda>num_contacts.
     bind_err (float_if_present bi (pget properties ''hs_forecast_amount'')) (\<lambda>forecast_amount.
     bind_err (float_if_present bi (pget properties ''hs_forecast_probability''))
       (\<lambda>forecast_probability.
     bind_err (parse_date bi (pget properties ''createdate'')) (\<lambda>created_at.
     bind_err (parse_date bi (pget properties ''hs_lastmodifieddate'')) (\<lambda>updated_at.
       Inr \<lparr> r_deal_id = (case deal_id_raw deal of None \<Rightarrow> PNone | Some v \<Rightarrow> v),
             r_deal_name = pget properties ''dealname'',
             r_amount = amount,
             r_deal_stage = pget properties ''dealstage'',
             r_close_date = close_date,
             r_pipeline = pget properties ''pipeline'',
             r_deal_type = pget properties ''dealtype'',
             r_hubspot_owner_id = pget properties ''hubspot_owner_id'',
             r_deal_stage_probability = probability,
             r_description = pget properties ''description'',
             r_analytics_source = pget properties ''hs_analytics_source'',
             r_num_associated_contacts = num_contacts,
             r_priority = pget properties ''hs_priority'',
             r_next_step = pget properties ''hs_next_step'',
             r_forecast_amount = forecast_amount,
             r_forecast_probability = forecast_probability,
             r_hubspot_created_at = created_at,
             r_hubspot_updated_at = updated_at,
             r_archived = (case deal_archived deal of None \<Rightarrow> False | Some b \<Rightarrow> b),
             r_raw_properties = properties,
             r_scan_id = scan_id,
             r_tenant_id = tenant_id,
             r_page_number = page_number,
             r_source_service = ''hubspot_deals'' \<rparr>)))))))))"

section \<open>The extraction engine\<close>

text \<open>The paging envelope: \<open>results\<close> and, when present, \<open>paging.next.after\<close>.\<close>

record page =
  results :: "deal list"
  paging_next_after :: "string option"

text \<open>\<open>paging.get("next") and paging["next"].get("after")\<close>: the cursor counts only when
  it is truthy, so an empty string is no cursor.\<close>

definition next_cursor :: "page \<Rightarrow> string option" where
  "next_cursor data =
     (case paging_next_after data of None \<Rightarrow> None | Some c \<Rightarrow> if c \<noteq> [] then Some c else None)"

datatype phase =
    hubspot_deals_processing
  | hubspot_deals_paused
  | hubspot_deals_paused_mid_page
  | hubspot_deals_cancelled
  | hubspot_deals_completed
  | hubspot_deals_error

text \<open>The phase-specific payload (\<open>checkpoint_data\<close>), without its timestamps.\<close>

datatype checkpoint_data =
    CancelData (cancelled_at_page: int)
  | PauseData (paused_at_page: int)
  | MidPageData (mid_paused_at_page: int) (records_completed_in_page: int)
  | ProcessingData (pages_processed: int) (last_page_records: int) (has_more_pages: bool)
  | CompletedData (total_pages: int) (final_total: int)
  | ErrorData (error: py_error) (error_page: int) (recovery_cursor: "string option")

record checkpoint =
  phase :: phase
  records_processed :: int
  cursor :: "string option"
  page_number :: int
  batch_size :: int
  payload :: checkpoint_data

text \<open>
  The pause and cancel predicates are polled callbacks whose answer depends on the outside
  world at the time of the call. Within one run every call happens at a different position
  (the page count only grows), so the answer is modelled as a function of the position:
  the page count at a page boundary, and the page count and record index inside a page.
  A callback may raise.
\<close>

datatype poll_site = PageBoundary int | BeforeRecord int nat

record loop_state =
  after :: "string option"
  page_count :: int
  total_records :: int

text \<open>The state a run resumes from; a key absent from the dictionary reads as its default
  (\<open>None\<close>, \<open>0\<close>, \<open>0\<close>).\<close>

record resume =
  resume_cursor :: "string option"
  resume_page_number :: int
  resume_records_processed :: int

text \<open>What the closure \<open>get_hubspot_deals\<close> captures. \<open>fetch\<close> is
  \<open>api_service.get_deals(limit=100, after=after, ...)\<close>; the checkpoint callback returns
  \<open>None\<close> when it succeeds and the exception when it raises.\<close>

record 'd env =
  bi :: "'d builtins"
  scan_id :: string
  tenant_id :: "string option"
  deal_stages :: "pyval list option"
  pipelines :: "pyval list option"
  fetch :: "string option \<Rightarrow> py_error + page"
  check_cancel_callback :: "(int \<Rightarrow> py_error + bool) option"
  check_pause_callback :: "(poll_site \<Rightarrow> py_error + bool) option"
  checkpoint_callback :: "(checkpoint \<Rightarrow> py_error option) option"

text \<open>What a run does, in order: page requests, rows handed downstream, and checkpoints
  given to the callback (\<open>CheckpointFailed\<close> when the callback raised).\<close>

datatype 'd event =
    Fetch "string option"
  | Yield "'d row"
  | Checkpoint checkpoint
  | CheckpointFailed checkpoint py_error

datatype outcome = Returned | Raised py_error

text \<open>\<open>check_cancel_callback and check_cancel_callback(scan_id)\<close>\<close>

definition poll_cancel :: "'d env \<Rightarrow> int \<Rightarrow> py_error + bool" where
  "poll_cancel E p = (case check_cancel_callback E of None \<Rightarrow> Inr False | Some f \<Rightarrow> f p)"

definition poll_pause :: "'d env \<Rightarrow> poll_site \<Rightarrow> py_error + bool" where
  "poll_pause E site = (case check_pause_callback E of None \<Rightarrow> Inr False | Some f \<Rightarrow> f site)"

text \<open>\<open>if checkpoint_callback: try: checkpoint_callback(scan_id, cp) except Exception: (log)\<close>:
  the pattern of all six checkpoint sites. Nothing is returned to the caller but the event.\<close>

definition save_checkpoint :: "'d env \<Rightarrow> checkpoint \<Rightarrow> 'd event list" where
  "save_checkpoint E cp =
     (case checkpoint_callback E of
        None \<Rightarrow> []
      | Some cb \<Rightarrow> (case cb cp of None \<Rightarrow> [Checkpoint cp] | Some e \<Rightarrow> [CheckpointFailed cp e]))"

definition cancel_checkpoint :: "loop_state \<Rightarrow> checkpoint" where
  "cancel_checkpoint s =
     \<lparr> phase = hubspot_deals_cancelled, records_processed = total_records s, cursor = after s,
       page_number = page_count s, batch_size = 100, payload = CancelData (page_count s) \<rparr>"

definition pause_checkpoint :: "loop_state \<Rightarrow> checkpoint" where
  "pause_checkpoint s =
     \<lparr> phase = hubspot_deals_paused, records_processed = total_records s, cursor = after s,
       page_number = page_count s, batch_size = 100, payload = PauseData (page_count s) \<rparr>"

definition mid_page_checkpoint :: "loop_state \<Rightarrow> int \<Rightarrow> checkpoint" where
  "mid_page_checkpoint s page_records =
     \<lparr> phase = hubspot_deals_paused_mid_page,
       records_processed = total_records s + page_records, cursor = after s,
       page_number = page_count s, batch_size = 100,
       payload = MidPageData (page_count s) page_records \<rparr>"

text \<open>The periodic checkpoint is built after the counters were updated: \<open>s\<close> is the state with
  the new counts, and the cursor is the next one.\<close>

definition processing_checkpoint :: "loop_state \<Rightarrow> int \<Rightarrow> page \<Rightarrow> checkpoint" where
  "processing_checkpoint s page_records data =
     \<lparr> phase = hubspot_deals_processing, records_processed = total_records s,
       cursor = next_cursor data, page_number = page_count s, batch_size = 100,
       payload = ProcessingData (page_count s) page_records (next_cursor data \<noteq> None) \<rparr>"

definition final_checkpoint :: "loop_state \<Rightarrow> checkpoint" where
  "final_checkpoint s =
     \<lparr> phase = hubspot_deals_completed, records_processed = total_records s, cursor = None,
       page_number = page_count s, batch_size = 100,
       payload = CompletedData (page_count s) (total_records s) \<rparr>"

definition error_checkpoint :: "loop_state \<Rightarrow> py_error \<Rightarrow> checkpoint" where
  "error_checkpoint s e =
     \<lparr> phase = hubspot_deals_error, records_processed = total_records s, cursor = after s,
       page_number = page_count s, batch_size = 100,
       payload = ErrorData e (page_count s + 1) (after s) \<rparr>"

text \<open>\<open>allow and value not in allow\<close>: an absent or empty allow-list filters nothing.\<close>

definition filtered_out :: "pyval list option \<Rightarrow> pyval \<Rightarrow> bool" where
  "filtered_out allow v = (case allow of None \<Rightarrow> False | Some xs \<Rightarrow> xs \<noteq> [] \<and> v \<notin> set xs)"

definition transform_of :: "'d env \<Rightarrow> int \<Rightarrow> deal \<Rightarrow> py_error + 'd row" where
  "transform_of E page_no d = transform_hubspot_deal (bi E) d (scan_id E) (tenant_id E) page_no"

text \<open>
  The \<open>for deal in deals\<close> loop of one page. \<open>s\<close> is the state at the head of the iteration of
  the outer loop (the counters are updated only after the page), \<open>i\<close> the index of the next
  record and \<open>page_records\<close> the rows yielded from this page so far.
\<close>

datatype page_result = PageDone int | PagePaused | PageRaised py_error

fun process_deals ::
  "'d env \<Rightarrow> loop_state \<Rightarrow> nat \<Rightarrow> int \<Rightarrow> deal list \<Rightarrow> 'd event list \<times> page_result" where
  "process_deals E s i page_records [] = ([], PageDone page_records)"
| "process_deals E s i page_records (d # ds) =
     (case poll_pause E (BeforeRecord (page_count s) i) of
        Inl e \<Rightarrow> ([], PageRaised e)
      | Inr pause \<Rightarrow>
          if pause then (save_checkpoint E (mid_page_checkpoint s page_records), PagePaused)
          else (case transform_of E (page_count s + 1) d of
                  Inl e \<Rightarrow> ([], PageRaised e)
                | Inr transformed_deal \<Rightarrow>
                    if filtered_out (deal_stages E) (r_deal_stage transformed_deal)
                    then process_deals E s (Suc i) page_records ds
                    else if filtered_out (pipelines E) (r_pipeline transformed_deal)
                    then process_deals E s (Suc i) page_records ds
                    else (case process_deals E s (Suc i) (page_records + 1) ds of
                            (evs, r) \<Rightarrow> (Yield transformed_deal # evs, r))))"

text \<open>One iteration of \<open>while page_count < 1000\<close> either ends the run or hands the next
  state to the loop.\<close>

datatype step = Stop outcome | Continue loop_state

text \<open>The \<open>except Exception as e\<close> of the outer \<open>try\<close>: an error checkpoint built from the
  loop variables as they are at that moment, then \<open>raise e\<close>. \<open>evs\<close> is what the iteration
  did before the exception.\<close>

definition on_exception ::
  "'d env \<Rightarrow> loop_state \<Rightarrow> py_error \<Rightarrow> 'd event list \<Rightarrow> 'd event list \<times> step" where
  "on_exception E s e evs = (evs @ save_checkpoint E (error_checkpoint s e), Stop (Raised e))"

definition periodic_checkpoint :: "'d env \<Rightarrow> loop_state \<Rightarrow> int \<Rightarrow> page \<Rightarrow> 'd event list" where
  "periodic_checkpoint E s page_records data =
     (if checkpoint_callback E \<noteq> None \<and> page_count s mod 5 = 0
      then save_checkpoint E (processing_checkpoint s page_records data) else [])"

text \<open>After the records of the page: update the counters, save the periodic checkpoint,
  then follow the next cursor or save the final checkpoint and leave the loop.\<close>

definition finish_page ::
  "'d env \<Rightarrow> loop_state \<Rightarrow> page \<Rightarrow> int \<Rightarrow> 'd event list \<times> step" where
  "finish_page E s data page_records =
     (let s' = s\<lparr> total_records := total_records s + page_records,
                  page_count := page_count s + 1 \<rparr>;
          periodic = periodic_checkpoint E s' page_records data
      in case next_cursor data of
           Some c \<Rightarrow> (periodic, Continue (s'\<lparr> after := Some c \<rparr>))
         | None \<Rightarrow> (periodic @ save_checkpoint E (final_checkpoint s'), Stop Returned))"

text \<open>From the request for the page to the end of the iteration.\<close>

definition fetch_and_process :: "'d env \<Rightarrow> loop_state \<Rightarrow> 'd event list \<times> step" where
  "fetch_and_process E s =
     (case fetch E (after s) of
        Inl e \<Rightarrow> on_exception E s e [Fetch (after s)]
      | Inr data \<Rightarrow>
          (let r = (if results data \<noteq> [] then process_deals E s 0 0 (results data)
                    else ([], PageDone 0))
           in case snd r of
                PageRaised e \<Rightarrow> on_exception E s e (Fetch (after s) # fst r)
              | PagePaused \<Rightarrow> (Fetch (after s) # fst r, Stop Returned)
              | PageDone page_records \<Rightarrow>
                  (Fetch (after s) # fst r @ fst (finish_page E s data page_records),
                   snd (finish_page E s data page_records))))"

text \<open>The cancellation check, the pause check, then the page.\<close>

definition loop_body :: "'d env \<Rightarrow> loop_state \<Rightarrow> 'd event list \<times> step" where
  "loop_body E s =
     (case poll_cancel E (page_count s) of
        Inl e \<Rightarrow> on_exception E s e []
      | Inr cancel \<Rightarrow>
          if cancel then (save_checkpoint E (cancel_checkpoint s), Stop Returned)
          else (case poll_pause E (PageBoundary (page_count s)) of
                  Inl e \<Rightarrow> on_exception E s e []
                | Inr pause \<Rightarrow>
                    if pause then (save_checkpoint E (pause_checkpoint s), Stop Returned)
                    else fetch_and_process E s))"

text \<open>The \<open>while page_count < 1000\<close> loop; when the condition fails the generator just
  ends.\<close>

function get_hubspot_deals_loop :: "'d env \<Rightarrow> loop_state \<Rightarrow> 'd event list \<times> outcome" where
  "get_hubspot_deals_loop E s =
     (if page_count s < 1000 then
        (case loop_body E s of
           (evs, Stop out) \<Rightarrow> (evs, out)
         | (evs, Continue s') \<Rightarrow>
             (case get_hubspot_deals_loop E s' of (rest, out) \<Rightarrow> (evs @ rest, out)))
      else ([], Returned))"
  by pat_completeness auto
termination
proof (relation "measure (\<lambda>(E, s). nat (1000 - page_count s))")
  show "wf (measure (\<lambda>(E :: 'd env, s). nat (1000 - page_count s)))"
    by simp
next
  fix E :: "'d env" and s x and evs :: "'d event list" and st s'
  assume small: "page_count s < 1000" and "(evs, st) = loop_body E s" "st = Continue s'"
  then have "loop_body E s = (evs, Continue s')"
    by simp
  then have "page_count s' = page_count s + 1"
    by (auto simp: loop_body_def fetch_and_process_def finish_page_def on_exception_def Let_def
             split: sum.splits if_splits page_result.splits option.splits)
  with small show "((E, s'), (E, s)) \<in> measure (\<lambda>(E, s). nat (1000 - page_count s))"
    by simp
qed

definition initial_state :: "resume option \<Rightarrow> loop_state" where
  "initial_state resume_from =
     (case resume_from of
        Some r \<Rightarrow> \<lparr> after = resume_cursor r, page_count = resume_page_number r,
                    total_records = resume_records_processed r \<rparr>
      | None \<Rightarrow> \<lparr> after = None, page_count = 0, total_records = 0 \<rparr>)"

definition get_hubspot_deals :: "'d env \<Rightarrow> resume option \<Rightarrow> 'd event list \<times> outcome" where
  "get_hubspot_deals E resume_from = get_hubspot_deals_loop E (initial_state resume_from)"

section \<open>The API client\<close>

record response =
  status_code :: int
  retry_after_header :: "string option"
  body :: page

text \<open>What \<open>session.request\<close> does on one attempt: it returns a response or raises.\<close>

datatype http_outcome = Responded response | RequestFailed py_error

text \<open>One request as the client sees it: the outcome of each attempt, the builtin \<open>int\<close>,
  and the clock read by the backoff of each attempt. The rate limiter that spaces the
  requests only sleeps; it is not modelled.\<close>

record client =
  send :: "nat \<Rightarrow> http_outcome"
  int_of :: "pyval \<Rightarrow> py_error + int"
  now :: "nat \<Rightarrow> real"

datatype client_event = Request nat | Sleep real

definition max_retries :: nat where
  "max_retries = 3"

text \<open>\<open>except requests.exceptions.RequestException\<close>\<close>

fun is_request_exception :: "py_error \<Rightarrow> bool" where
  "is_request_exception (RequestException m) = True"
| "is_request_exception (HTTPError c) = True"
| "is_request_exception e = False"

text \<open>\<open>int(response.headers.get('Retry-After', 1))\<close>; \<open>int\<close> may raise on the header text.\<close>

definition retry_after :: "client \<Rightarrow> response \<Rightarrow> py_error + int" where
  "retry_after C response =
     (case retry_after_header response of None \<Rightarrow> Inr 1 | Some h \<Rightarrow> int_of C (PStr h))"

text \<open>\<open>_handle_rate_limit_response\<close>: on 429, sleep for that many seconds and return true;
  \<open>time.sleep\<close> raises \<open>ValueError\<close> on a negative length.\<close>

definition handle_rate_limit_response ::
  "client \<Rightarrow> response \<Rightarrow> py_error + (client_event list \<times> bool)" where
  "handle_rate_limit_response C response =
     (if status_code response = 429 then
        (case retry_after C response of
           Inl e \<Rightarrow> Inl e
         | Inr seconds \<Rightarrow>
             if seconds < 0 then Inl ValueError
             else Inr ([Sleep (real_of_int seconds)], True))
      else Inr ([], False))"

text \<open>The \<open>except\<close> clause of \<open>_make_request\<close>; \<open>rest\<close> is what the remaining attempts do.\<close>

definition on_request_exception ::
  "client \<Rightarrow> nat \<Rightarrow> py_error \<Rightarrow> client_event list \<times> (py_error + response) \<Rightarrow>
   client_event list \<times> (py_error + response)" where
  "on_request_exception C attempt e rest =
     (if \<not> is_request_exception e then ([], Inl e)
      else if attempt = max_retries - 1 then ([], Inl e)
      else (Sleep (2 ^ attempt + frac (now C attempt)) # fst rest, snd rest))"

text \<open>The \<open>for attempt in range(max_retries)\<close> loop, over the attempts still to make. A 429
  response goes on with the next value of \<open>attempt\<close>; when the range is used up the loop
  falls through to the final \<open>raise\<close>. Everything from the request to \<open>raise_for_status\<close>
  is inside the \<open>try\<close>, so an exception of the rate-limit handler meets the \<open>except\<close>
  clause as well.\<close>

fun make_request_attempts ::
  "client \<Rightarrow> nat list \<Rightarrow> client_event list \<times> (py_error + response)" where
  "make_request_attempts C [] = ([], Inl (GenericException ''Max retries (3) exceeded''))"
| "make_request_attempts C (attempt # rest) =
     (case send C attempt of
        RequestFailed e \<Rightarrow>
          (case on_request_exception C attempt e (make_request_attempts C rest) of
             (evs, r) \<Rightarrow> (Request attempt # evs, r))
      | Responded response \<Rightarrow>
          (case handle_rate_limit_response C response of
             Inl e \<Rightarrow>
               (case on_request_exception C attempt e (make_request_attempts C rest) of
                  (evs, r) \<Rightarrow> (Request attempt # evs, r))
           | Inr (sleeps, limited) \<Rightarrow>
               if limited then
                 (case make_request_attempts C rest of
                    (evs, r) \<Rightarrow> (Request attempt # sleeps @ evs, r))
               else if 400 \<le> status_code response \<and> status_code response < 600 then
                 (case on_request_exception C attempt (HTTPError (status_code response))
                         (make_request_attempts C rest) of
                    (evs, r) \<Rightarrow> (Request attempt # evs, r))
               else ([Request attempt], Inr response)))"

definition make_request :: "client \<Rightarrow> client_event list \<times> (py_error + response)" where
  "make_request C = make_request_attempts C [0..<max_retries]"


text \<open>\<open>if after: params['after'] = after\<close>: the cursor is sent only when it is truthy.\<close>

definition sent_cursor :: "string option \<Rightarrow> string option" where
  "sent_cursor after_param =
     (case after_param of None \<Rightarrow> None | Some c \<Rightarrow> if c \<noteq> [] then Some c else None)"

text \<open>\<open>get_deals\<close>: a request exception is logged and raised again, any other exception
  passes through. \<open>api\<close> gives, for the cursor sent, how the server answers the attempts of
  that request.\<close>

definition get_deals :: "(string option \<Rightarrow> client) \<Rightarrow> string option \<Rightarrow> py_error + page" where
  "get_deals api after_param =
     (case snd (make_request (api (sent_cursor after_param))) of
        Inl e \<Rightarrow> Inl e
      | Inr response \<Rightarrow> Inr (body response))"

section \<open>Reading a run\<close>

fun yields :: "'d event list \<Rightarrow> 'd row list" where
  "yields [] = []"
| "yields (Yield r # evs) = r # yields evs"
| "yields (ev # evs) = yields evs"

fun fetches :: "'d event list \<Rightarrow> string option list" where
  "fetches [] = []"
| "fetches (Fetch c # evs) = c # fetches evs"
| "fetches (ev # evs) = fetches evs"

text \<open>The checkpoints handed to the callback, whether it stored them or raised.\<close>

fun checkpoints :: "'d event list \<Rightarrow> checkpoint list" where
  "checkpoints [] = []"
| "checkpoints (Checkpoint cp # evs) = cp # checkpoints evs"
| "checkpoints (CheckpointFailed cp e # evs) = cp # checkpoints evs"
| "checkpoints (ev # evs) = checkpoints evs"

text \<open>The qualifying rows of one page, in the order of the array: the records that transform
  and pass both allow-lists.\<close>

definition qualifies :: "'d env \<Rightarrow> 'd row \<Rightarrow> bool" where
  "qualifies E r =
     (\<not> filtered_out (deal_stages E) (r_deal_stage r) \<and> \<not> filtered_out (pipelines E) (r_pipeline r))"

fun page_rows :: "'d env \<Rightarrow> int \<Rightarrow> deal list \<Rightarrow> 'd row list" where
  "page_rows E page_no [] = []"
| "page_rows E page_no (d # ds) =
     (case transform_of E page_no d of
        Inl e \<Rightarrow> page_rows E page_no ds
      | Inr r \<Rightarrow> if qualifies E r then r # page_rows E page_no ds else page_rows E page_no ds)"

text \<open>The qualifying rows of consecutive pages, the first of which is page \<open>p + 1\<close>.\<close>

fun rows_of_pages :: "'d env \<Rightarrow> int \<Rightarrow> page list \<Rightarrow> 'd row list" where
  "rows_of_pages E p [] = []"
| "rows_of_pages E p (pg # pgs) = page_rows E (p + 1) (results pg) @ rows_of_pages E (p + 1) pgs"

text \<open>Every record of the list transforms without an exception.\<close>

definition transforms_ok :: "'d env \<Rightarrow> deal list \<Rightarrow> bool" where
  "transforms_ok E ds = list_all (\<lambda>d. \<not> isl (transform_of E 0 d)) ds"

text \<open>\<open>chain f c pgs c'\<close>: asked for cursor \<open>c\<close> the API \<open>f\<close> serves the pages \<open>pgs\<close> one after
  the other, each naming the next, and the last of them names the cursor \<open>c'\<close>.\<close>

fun chain ::
  "(string option \<Rightarrow> py_error + page) \<Rightarrow> string option \<Rightarrow> page list \<Rightarrow> string option \<Rightarrow> bool" where
  "chain f c [] c' = (c' = c)"
| "chain f c (pg # pgs) c' =
     (f c = Inr pg \<and> (case next_cursor pg of None \<Rightarrow> False | Some n \<Rightarrow> chain f (Some n) pgs c'))"

text \<open>No poll made while the page count is in \<open>[lo, hi)\<close> answers true, and none raises.\<close>

definition quiet :: "'d env \<Rightarrow> int \<Rightarrow> int \<Rightarrow> bool" where
  "quiet E lo hi =
     (\<forall>q. lo \<le> q \<and> q < hi \<longrightarrow>
        poll_cancel E q = Inr False \<and> poll_pause E (PageBoundary q) = Inr False \<and>
        (\<forall>i. poll_pause E (BeforeRecord q i) = Inr False))"

text \<open>What an undisturbed walk over the pages \<open>pgs\<close> does from the state \<open>s\<close>, each page having
  a successor: the events, and the state at the head of the iteration after them.\<close>

fun walk :: "'d env \<Rightarrow> loop_state \<Rightarrow> page list \<Rightarrow> 'd event list \<times> loop_state" where
  "walk E s [] = ([], s)"
| "walk E s (pg # pgs) =
     (let rows = page_rows E (page_count s + 1) (results pg);
          s' = \<lparr> after = next_cursor pg, page_count = page_count s + 1,
                 total_records = total_records s + int (length rows) \<rparr>
      in (Fetch (after s) # map Yield rows @ periodic_checkpoint E s' (int (length rows)) pg
            @ fst (walk E s' pgs),
          snd (walk E s' pgs)))"

text \<open>\<open>chain_to_end f c pgs\<close>: asked for cursor \<open>c\<close> the API serves exactly the pages \<open>pgs\<close>,
  each naming the next, and the last one names no further cursor.\<close>

fun chain_to_end ::
  "(string option \<Rightarrow> py_error + page) \<Rightarrow> string option \<Rightarrow> page list \<Rightarrow> bool" where
  "chain_to_end f c [] = False"
| "chain_to_end f c [pg] = (f c = Inr pg \<and> next_cursor pg = None)"
| "chain_to_end f c (pg # pgs) =
     (f c = Inr pg \<and> (case next_cursor pg of None \<Rightarrow> False | Some n \<Rightarrow> chain_to_end f (Some n) pgs))"

text \<open>The phases of a list of checkpoints.\<close>

definition phases :: "checkpoint list \<Rightarrow> phase list" where
  "phases cps = map phase cps"

text \<open>Checkpoint events without the mark of whether the callback raised.\<close>

fun forget_failure :: "'d event \<Rightarrow> 'd event" where
  "forget_failure (CheckpointFailed cp e) = Checkpoint cp"
| "forget_failure ev = ev"

section \<open>Concrete inputs\<close>

text \<open>
  A stand-in for the builtins on the literals the concrete inputs below use: a non-empty
  string of decimal digits is read as that number and any other string is rejected with
  \<open>ValueError\<close>, as \<open>float("N/A")\<close> and \<open>int("N/A")\<close> are. Python reads more forms (signs,
  spaces, exponents); none occurs below. The inputs carry no timestamp, so the stand-in for
  \<open>fromisoformat\<close> is never reached.
\<close>

definition decimal :: "string \<Rightarrow> nat option" where
  "decimal s =
     (if s \<noteq> [] \<and> list_all (\<lambda>c. c \<in> set ''0123456789'') s
      then Some (foldl (\<lambda>n c. 10 * n + (of_char c - 48)) 0 s) else None)"

definition demo_float :: "pyval \<Rightarrow> py_error + real" where
  "demo_float v =
     (case v of
        PNone \<Rightarrow> Inl TypeError
      | PBool b \<Rightarrow> Inr (if b then 1 else 0)
      | PInt n \<Rightarrow> Inr (real_of_int n)
      | PStr s \<Rightarrow> (case decimal s of None \<Rightarrow> Inl ValueError | Some n \<Rightarrow> Inr (real n)))"

definition demo_int :: "pyval \<Rightarrow> py_error + int" where
  "demo_int v =
     (case v of
        PNone \<Rightarrow> Inl TypeError
      | PBool b \<Rightarrow> Inr (if b then 1 else 0)
      | PInt n \<Rightarrow> Inr n
      | PStr s \<Rightarrow> (case decimal s of None \<Rightarrow> Inl ValueError | Some n \<Rightarrow> Inr (int n)))"

definition demo_builtins :: "unit builtins" where
  "demo_builtins =
     \<lparr> py_float = demo_float, py_int = demo_int, fromisoformat = (\<lambda>s. Inl ValueError) \<rparr>"

text \<open>A deal whose amount does not parse, and a deal whose forecast amount does not.\<close>

definition deal_plain :: deal where
  "deal_plain =
     \<lparr> deal_id_raw = Some (PStr ''101''),
       deal_properties = Some [(''dealname'', PStr ''Renewal''), (''amount'', PStr ''N/A'')],
       deal_archived = None \<rparr>"

definition deal_bad_forecast :: deal where
  "deal_bad_forecast =
     \<lparr> deal_id_raw = Some (PStr ''102''),
       deal_properties = Some [(''hs_forecast_amount'', PStr ''N/A'')],
       deal_archived = None \<rparr>"

text \<open>An API of \<open>n\<close> pages. Page \<open>k\<close> holds the records \<open>content k\<close>; the cursor of page
  \<open>k > 0\<close> is the letter \<open>c\<close> written \<open>k\<close> times, the first page is asked for without a
  cursor, and a cursor past the last page is refused.\<close>

definition cursor_of :: "nat \<Rightarrow> string option" where
  "cursor_of k = (if k = 0 then None else Some (replicate k CHR ''c''))"

definition demo_page :: "(nat \<Rightarrow> deal list) \<Rightarrow> nat \<Rightarrow> nat \<Rightarrow> page" where
  "demo_page content n k =
     \<lparr> results = content k,
       paging_next_after = (if Suc k < n then Some (replicate (Suc k) CHR ''c'') else None) \<rparr>"

definition demo_api :: "(nat \<Rightarrow> deal list) \<Rightarrow> nat \<Rightarrow> string option \<Rightarrow> py_error + page" where
  "demo_api content n c =
     (let k = (case c of None \<Rightarrow> 0 | Some cur \<Rightarrow> length cur)
      in if k < n then Inr (demo_page content n k) else Inl (HTTPError 400))"

text \<open>A run over that API with no allow-list, no pause or cancel predicate and a checkpoint
  callback that always succeeds.\<close>

definition demo_env :: "(string option \<Rightarrow> py_error + page) \<Rightarrow> unit env" where
  "demo_env f =
     \<lparr> bi = demo_builtins, scan_id = ''scan-1'', tenant_id = None, deal_stages = None,
       pipelines = None, fetch = f, check_cancel_callback = None,
       check_pause_callback = None, checkpoint_callback = Some (\<lambda>cp. None) \<rparr>"

text \<open>An API of 1001 pages whose only record is on the last page.\<close>

definition long_content :: "nat \<Rightarrow> deal list" where
  "long_content k = (if k = 1000 then [deal_plain] else [])"

definition long_env :: "unit env" where
  "long_env = demo_env (demo_api long_content 1001)"

definition long_pages :: "page list" where
  "long_pages = map (demo_page long_content 1001) [0..<1001]"

text \<open>An API of two pages with one record each.\<close>

definition two_pages :: "page list" where
  "two_pages = map (demo_page (\<lambda>k. [deal_plain]) 2) [0..<2]"

definition two_page_env :: "unit env" where
  "two_page_env = demo_env (demo_api (\<lambda>k. [deal_plain]) 2)"

text \<open>An API of two pages: one record on the first, and on the second a record that
  transforms followed by one whose forecast amount does not parse.\<close>

definition mixed_content :: "nat \<Rightarrow> deal list" where
  "mixed_content k = (if k = 0 then [deal_plain] else [deal_plain, deal_bad_forecast])"

definition mixed_env :: "unit env" where
  "mixed_env = demo_env (demo_api mixed_content 2)"

text \<open>An API of five pages whose only record is on the first page.\<close>

definition five_content :: "nat \<Rightarrow> deal list" where
  "five_content k = (if k = 0 then [deal_plain] else [])"

definition five_env :: "unit env" where
  "five_env = demo_env (demo_api five_content 5)"

definition five_pages :: "page list" where
  "five_pages = map (demo_page five_content 5) [0..<5]"

text \<open>An API of six pages with one record on each.\<close>

definition six_env :: "unit env" where
  "six_env = demo_env (demo_api (\<lambda>k. [deal_plain]) 6)"

text \<open>The first five pages of the six-page API, and the run that resumes after them.\<close>

definition six_first_five :: "page list" where
  "six_first_five = map (demo_page (\<lambda>k. [deal_plain]) 6) [0..<5]"

definition six_resumed_env :: "unit env" where
  "six_resumed_env =
     six_env\<lparr> check_cancel_callback := None, check_pause_callback := None,
               checkpoint_callback := Some (\<lambda>cp. None) \<rparr>"

text \<open>The two-page run with a cancel request, and a pause request, at the boundary before
  the second page; and with a pause request before the second record of the second page.\<close>

definition cancel_env :: "unit env" where
  "cancel_env =
     mixed_env\<lparr> check_cancel_callback := Some (\<lambda>p. Inr (p = 1)),
                check_pause_callback := Some (\<lambda>site. Inr (site = PageBoundary 1)) \<rparr>"

definition pause_env :: "unit env" where
  "pause_env = mixed_env\<lparr> check_pause_callback := Some (\<lambda>site. Inr (site = BeforeRecord 1 1)) \<rparr>"

text \<open>A server that answers the request for the first page and resets the connection on
  every attempt for any other cursor.\<close>

definition flaky_api :: "string option \<Rightarrow> client" where
  "flaky_api c =
     \<lparr> send = (\<lambda>attempt.
          if c = None
          then Responded \<lparr> status_code = 200, retry_after_header = None,
                           body = demo_page mixed_content 2 0 \<rparr>
          else RequestFailed (RequestException ''connection reset'')),
       int_of = demo_int, now = (\<lambda>attempt. 0) \<rparr>"

definition flaky_env :: "unit env" where
  "flaky_env = demo_env (get_deals flaky_api)"




text \<open>Deals whose forecast probability, and whose number of contacts, does not parse.\<close>

definition deal_bad_probability :: deal where
  "deal_bad_probability =
     \<lparr> deal_id_raw = Some (PStr ''103''),
       deal_properties = Some [(''hs_forecast_probability'', PStr ''N/A'')],
       deal_archived = None \<rparr>"

definition deal_bad_contacts :: deal where
  "deal_bad_contacts =
     \<lparr> deal_id_raw = Some (PStr ''104''),
       deal_properties = Some [(''num_associated_contacts'', PStr ''N/A'')],
       deal_archived = None \<rparr>"

section \<open>Basic facts\<close>

lemma isl_bind_err_cong:
  "(\<And>x. isl (f x) = isl (g x)) \<Longrightarrow> isl (bind_err r f) = isl (bind_err r g)"
  by (cases r) (simp_all add: bind_err_def)

text \<open>Whether a record transforms does not depend on the page number, which is only copied
  into the row.\<close>

lemma transform_isl_page_number:
  "isl (transform_hubspot_deal b d sid tid pn) = isl (transform_hubspot_deal b d sid tid pn')"
  unfolding transform_hubspot_deal_def Let_def
  by (intro isl_bind_err_cong) simp

lemma transform_of_isl: "isl (transform_of E pn d) = isl (transform_of E 0 d)"
  unfolding transform_of_def by (rule transform_isl_page_number)

lemma yields_append: "yields (xs @ ys) = yields xs @ yields ys"
  by (induction xs rule: yields.induct) simp_all

lemma fetches_append: "fetches (xs @ ys) = fetches xs @ fetches ys"
  by (induction xs rule: fetches.induct) simp_all

lemma checkpoints_append: "checkpoints (xs @ ys) = checkpoints xs @ checkpoints ys"
  by (induction xs rule: checkpoints.induct) simp_all

lemma yields_map_Yield: "yields (map Yield rs) = rs"
  by (induction rs) simp_all

lemma fetches_map_Yield: "fetches (map Yield rs) = []"
  by (induction rs) simp_all

lemma checkpoints_map_Yield: "checkpoints (map Yield rs) = []"
  by (induction rs) simp_all

lemma yields_save_checkpoint: "yields (save_checkpoint E cp) = []"
  by (simp add: save_checkpoint_def split: option.splits)

lemma fetches_save_checkpoint: "fetches (save_checkpoint E cp) = []"
  by (simp add: save_checkpoint_def split: option.splits)

lemma checkpoints_save_checkpoint:
  "checkpoints (save_checkpoint E cp) = (if checkpoint_callback E = None then [] else [cp])"
  by (simp add: save_checkpoint_def split: option.splits)

lemma yields_periodic: "yields (periodic_checkpoint E s n pg) = []"
  by (simp add: periodic_checkpoint_def yields_save_checkpoint)

lemma fetches_periodic: "fetches (periodic_checkpoint E s n pg) = []"
  by (simp add: periodic_checkpoint_def fetches_save_checkpoint)

subsection \<open>The records of one page\<close>

text \<open>As long as no poll answers true and the records transform, the inner loop yields the
  qualifying rows and goes on with the rest of the page.\<close>

lemma process_deals_prefix:
  assumes "\<forall>k<length xs. poll_pause E (BeforeRecord (page_count s) (i + k)) = Inr False"
    and "transforms_ok E xs"
  shows "process_deals E s i n (xs @ ys) =
           (map Yield (page_rows E (page_count s + 1) xs)
              @ fst (process_deals E s (i + length xs)
                       (n + int (length (page_rows E (page_count s + 1) xs))) ys),
            snd (process_deals E s (i + length xs)
                   (n + int (length (page_rows E (page_count s + 1) xs))) ys))"
  using assms
proof (induction xs arbitrary: i n)
  case Nil
  then show ?case by simp
next
  case (Cons d xs)
  from Cons.prems(1) have p0: "poll_pause E (BeforeRecord (page_count s) i) = Inr False"
    by fastforce
  from Cons.prems(1)
  have ps: "\<forall>k<length xs. poll_pause E (BeforeRecord (page_count s) (Suc i + k)) = Inr False"
    by fastforce
  from Cons.prems(2) have ok: "transforms_ok E xs" and "\<not> isl (transform_of E 0 d)"
    by (simp_all add: transforms_ok_def)
  then have "\<not> isl (transform_of E (page_count s + 1) d)"
    using transform_of_isl by blast
  then obtain r where r: "transform_of E (page_count s + 1) d = Inr r"
    by (cases "transform_of E (page_count s + 1) d") simp_all
  show ?case
    using Cons.IH [OF ps ok] p0 r
    by (simp add: qualifies_def add.assoc split: prod.splits)
qed

lemma process_deals_all:
  assumes "\<forall>k<length ds. poll_pause E (BeforeRecord (page_count s) k) = Inr False"
    and "transforms_ok E ds"
  shows "process_deals E s 0 0 ds =
           (map Yield (page_rows E (page_count s + 1) ds),
            PageDone (int (length (page_rows E (page_count s + 1) ds))))"
  using process_deals_prefix [of ds E s 0 0 "[]"] assms by simp

subsection \<open>Undisturbed pages\<close>

lemmas loop_unfold = get_hubspot_deals_loop.simps

declare get_hubspot_deals_loop.simps [simp del]

lemma loop_body_smooth:
  assumes "poll_cancel E (page_count s) = Inr False"
    and "poll_pause E (PageBoundary (page_count s)) = Inr False"
    and "fetch E (after s) = Inr pg"
    and "\<forall>k<length (results pg). poll_pause E (BeforeRecord (page_count s) k) = Inr False"
    and "transforms_ok E (results pg)"
    and "next_cursor pg = Some c"
  shows "loop_body E s =
           (Fetch (after s) # map Yield (page_rows E (page_count s + 1) (results pg))
              @ periodic_checkpoint E
                  \<lparr> after = Some c, page_count = page_count s + 1,
                    total_records = total_records s
                      + int (length (page_rows E (page_count s + 1) (results pg))) \<rparr>
                  (int (length (page_rows E (page_count s + 1) (results pg)))) pg,
            Continue \<lparr> after = Some c, page_count = page_count s + 1,
                       total_records = total_records s
                         + int (length (page_rows E (page_count s + 1) (results pg))) \<rparr>)"
proof -
  have pd: "(if results pg \<noteq> [] then process_deals E s 0 0 (results pg) else ([], PageDone 0)) =
        (map Yield (page_rows E (page_count s + 1) (results pg)),
         PageDone (int (length (page_rows E (page_count s + 1) (results pg)))))"
    using process_deals_all [OF assms(4,5)] by (cases "results pg") simp_all
  have per: "\<And>a n. periodic_checkpoint E (s\<lparr>total_records := n, page_count := page_count s + 1\<rparr>) a pg
              = periodic_checkpoint E \<lparr> after = Some c, page_count = page_count s + 1, total_records = n \<rparr> a pg"
    by (simp add: periodic_checkpoint_def processing_checkpoint_def)
  show ?thesis
    unfolding loop_body_def fetch_and_process_def
    apply (simp only: assms(1,2,3) sum.case if_False Let_def pd)
    apply (simp add: finish_page_def Let_def assms(6) per)
    done
qed

lemma quiet_head:
  assumes "quiet E lo hi" and "lo < hi"
  shows "poll_cancel E lo = Inr False" "poll_pause E (PageBoundary lo) = Inr False"
    "poll_pause E (BeforeRecord lo i) = Inr False" "quiet E (lo + 1) hi"
  using assms by (auto simp: quiet_def)

text \<open>The loop walks over a chain of undisturbed pages and then goes on from the state the
  walk ends in.\<close>

lemma loop_walk:
  assumes "chain (fetch E) (after s) pgs c'"
    and "quiet E (page_count s) (page_count s + int (length pgs))"
    and "\<forall>pg\<in>set pgs. transforms_ok E (results pg)"
    and "page_count s + int (length pgs) \<le> 1000"
  shows "get_hubspot_deals_loop E s =
           (fst (walk E s pgs) @ fst (get_hubspot_deals_loop E (snd (walk E s pgs))),
            snd (get_hubspot_deals_loop E (snd (walk E s pgs))))"
  using assms
proof (induction pgs arbitrary: s)
  case Nil
  then show ?case by simp
next
  case (Cons pg pgs)
  let ?rows = "page_rows E (page_count s + 1) (results pg)"
  from Cons.prems(1) obtain c where f: "fetch E (after s) = Inr pg"
    and nc: "next_cursor pg = Some c" and ch: "chain (fetch E) (Some c) pgs c'"
    by (auto split: option.splits)
  let ?s' = "\<lparr> after = Some c, page_count = page_count s + 1,
               total_records = total_records s + int (length ?rows) \<rparr>"
  have lt: "page_count s < page_count s + int (length (pg # pgs))" by simp
  note q = quiet_head [OF Cons.prems(2) lt]
  have body: "loop_body E s =
      (Fetch (after s) # map Yield ?rows @ periodic_checkpoint E ?s' (int (length ?rows)) pg,
       Continue ?s')"
    using loop_body_smooth [OF q(1) q(2) f _ _ nc] q(3) Cons.prems(3) by simp
  have q': "quiet E (page_count ?s') (page_count ?s' + int (length pgs))"
    using q(4) by (simp add: algebra_simps)
  have IH: "get_hubspot_deals_loop E ?s' =
           (fst (walk E ?s' pgs) @ fst (get_hubspot_deals_loop E (snd (walk E ?s' pgs))),
            snd (get_hubspot_deals_loop E (snd (walk E ?s' pgs))))"
    using Cons.IH [of ?s'] ch q' Cons.prems(3,4) by simp
  have small: "page_count s < 1000" using Cons.prems(4) by simp
  show ?case
    apply (subst loop_unfold)
    apply (simp only: small if_True body prod.case step.case)
    apply (subst IH)
    apply (simp add: Let_def nc)
    done
qed

lemma walk_state:
  "chain f (after s) pgs c' \<Longrightarrow>
   snd (walk E s pgs) =
     \<lparr> after = c', page_count = page_count s + int (length pgs),
       total_records = total_records s + int (length (rows_of_pages E (page_count s) pgs)) \<rparr>"
proof (induction pgs arbitrary: s)
  case Nil
  then show ?case by simp
next
  case (Cons pg pgs)
  then show ?case
    by (auto simp: Let_def split: option.splits)
qed

lemma walk_yields: "yields (fst (walk E s pgs)) = rows_of_pages E (page_count s) pgs"
  by (induction pgs arbitrary: s)
     (simp_all add: Let_def yields_append yields_map_Yield yields_periodic)

lemma walk_fetches: "length (fetches (fst (walk E s pgs))) = length pgs"
  by (induction pgs arbitrary: s)
     (simp_all add: Let_def fetches_append fetches_map_Yield fetches_periodic)

lemma loop_cancel:
  assumes "page_count s < 1000" and "poll_cancel E (page_count s) = Inr True"
  shows "get_hubspot_deals_loop E s = (save_checkpoint E (cancel_checkpoint s), Returned)"
  by (subst loop_unfold) (simp add: assms loop_body_def)

lemma loop_last_page:
  assumes "page_count s < 1000"
    and "poll_cancel E (page_count s) = Inr False"
    and "poll_pause E (PageBoundary (page_count s)) = Inr False"
    and "fetch E (after s) = Inr pg"
    and "\<forall>k<length (results pg). poll_pause E (BeforeRecord (page_count s) k) = Inr False"
    and "transforms_ok E (results pg)"
    and "next_cursor pg = None"
  shows "get_hubspot_deals_loop E s =
           (Fetch (after s) # map Yield (page_rows E (page_count s + 1) (results pg))
              @ periodic_checkpoint E
                  (s\<lparr> total_records := total_records s
                        + int (length (page_rows E (page_count s + 1) (results pg))),
                      page_count := page_count s + 1 \<rparr>)
                  (int (length (page_rows E (page_count s + 1) (results pg)))) pg
              @ save_checkpoint E
                  (final_checkpoint
                     (s\<lparr> total_records := total_records s
                           + int (length (page_rows E (page_count s + 1) (results pg))),
                         page_count := page_count s + 1 \<rparr>)),
            Returned)"
proof -
  have pd: "(if results pg \<noteq> [] then process_deals E s 0 0 (results pg) else ([], PageDone 0)) =
        (map Yield (page_rows E (page_count s + 1) (results pg)),
         PageDone (int (length (page_rows E (page_count s + 1) (results pg)))))"
    using process_deals_all [OF assms(5,6)] by (cases "results pg") simp_all
  have "loop_body E s = (Fetch (after s) # map Yield (page_rows E (page_count s + 1) (results pg))
              @ periodic_checkpoint E
                  (s\<lparr> total_records := total_records s
                        + int (length (page_rows E (page_count s + 1) (results pg))),
                      page_count := page_count s + 1 \<rparr>)
                  (int (length (page_rows E (page_count s + 1) (results pg)))) pg
              @ save_checkpoint E
                  (final_checkpoint
                     (s\<lparr> total_records := total_records s
                           + int (length (page_rows E (page_count s + 1) (results pg))),
                         page_count := page_count s + 1 \<rparr>)),
            Stop Returned)"
    unfolding loop_body_def fetch_and_process_def
    apply (simp only: assms(2,3,4) sum.case if_False Let_def pd)
    apply (simp add: finish_page_def Let_def assms(7))
    done
  then show ?thesis
    by (subst loop_unfold) (simp add: assms(1))
qed

lemma loop_mid_page_pause:
  assumes "page_count s < 1000"
    and "poll_cancel E (page_count s) = Inr False"
    and "poll_pause E (PageBoundary (page_count s)) = Inr False"
    and "fetch E (after s) = Inr pg"
    and "j < length (results pg)"
    and "\<forall>k<j. poll_pause E (BeforeRecord (page_count s) k) = Inr False"
    and "poll_pause E (BeforeRecord (page_count s) j) = Inr True"
    and "transforms_ok E (take j (results pg))"
  shows "get_hubspot_deals_loop E s =
           (Fetch (after s) # map Yield (page_rows E (page_count s + 1) (take j (results pg)))
              @ save_checkpoint E
                  (mid_page_checkpoint s
                     (int (length (page_rows E (page_count s + 1) (take j (results pg)))))),
            Returned)"
proof -
  obtain d rest where dr: "drop j (results pg) = d # rest"
    using assms(5) by (cases "drop j (results pg)") simp_all
  have split: "results pg = take j (results pg) @ d # rest"
    using dr by (metis append_take_drop_id)
  have len: "length (take j (results pg)) = j" using assms(5) by simp
  have "process_deals E s 0 0 (take j (results pg) @ d # rest) =
      (map Yield (page_rows E (page_count s + 1) (take j (results pg)))
         @ save_checkpoint E
             (mid_page_checkpoint s
                (int (length (page_rows E (page_count s + 1) (take j (results pg)))))),
       PagePaused)"
    apply (subst process_deals_prefix)
    using assms(6,8) len apply simp_all
    using assms(7) apply simp
    done
  then have pd: "(if results pg \<noteq> [] then process_deals E s 0 0 (results pg) else ([], PageDone 0)) =
      (map Yield (page_rows E (page_count s + 1) (take j (results pg)))
         @ save_checkpoint E
             (mid_page_checkpoint s
                (int (length (page_rows E (page_count s + 1) (take j (results pg)))))),
       PagePaused)"
    using split assms(5) by (metis length_greater_0_conv less_nat_zero_code list.size(3) not_gr_zero)
  have "loop_body E s = (Fetch (after s) # map Yield (page_rows E (page_count s + 1) (take j (results pg)))
              @ save_checkpoint E
                  (mid_page_checkpoint s
                     (int (length (page_rows E (page_count s + 1) (take j (results pg)))))),
            Stop Returned)"
    unfolding loop_body_def fetch_and_process_def
    apply (simp only: assms(2,3,4) sum.case if_False Let_def pd)
    apply simp
    done
  then show ?thesis
    by (subst loop_unfold) (simp add: assms(1))
qed

lemma loop_fetch_fails:
  assumes "page_count s < 1000"
    and "poll_cancel E (page_count s) = Inr False"
    and "poll_pause E (PageBoundary (page_count s)) = Inr False"
    and "fetch E (after s) = Inl e"
  shows "get_hubspot_deals_loop E s =
           (Fetch (after s) # save_checkpoint E (error_checkpoint s e), Raised e)"
  by (subst loop_unfold)
     (simp add: assms loop_body_def fetch_and_process_def on_exception_def)

lemma loop_transform_raises:
  assumes "page_count s < 1000"
    and "poll_cancel E (page_count s) = Inr False"
    and "poll_pause E (PageBoundary (page_count s)) = Inr False"
    and "fetch E (after s) = Inr pg"
    and "j < length (results pg)"
    and "\<forall>k\<le>j. poll_pause E (BeforeRecord (page_count s) k) = Inr False"
    and "transforms_ok E (take j (results pg))"
    and "transform_of E (page_count s + 1) (results pg ! j) = Inl e"
  shows "get_hubspot_deals_loop E s =
           (Fetch (after s) # map Yield (page_rows E (page_count s + 1) (take j (results pg)))
              @ save_checkpoint E (error_checkpoint s e),
            Raised e)"
proof -
  obtain d rest where dr: "drop j (results pg) = d # rest"
    using assms(5) by (cases "drop j (results pg)") simp_all
  have split: "results pg = take j (results pg) @ d # rest"
    using dr by (metis append_take_drop_id)
  have d: "d = results pg ! j"
    using dr assms(5) by (metis hd_drop_conv_nth list.sel(1))
  have len: "length (take j (results pg)) = j" using assms(5) by simp
  have "process_deals E s 0 0 (take j (results pg) @ d # rest) =
      (map Yield (page_rows E (page_count s + 1) (take j (results pg))), PageRaised e)"
    apply (subst process_deals_prefix)
    using assms(6,7) len apply simp_all
    using assms(6,8) d apply simp
    done
  then have pd: "(if results pg \<noteq> [] then process_deals E s 0 0 (results pg) else ([], PageDone 0)) =
      (map Yield (page_rows E (page_count s + 1) (take j (results pg))), PageRaised e)"
    using split assms(5) by (metis length_greater_0_conv less_nat_zero_code list.size(3) not_gr_zero)
  have "loop_body E s =
          (Fetch (after s) # map Yield (page_rows E (page_count s + 1) (take j (results pg)))
              @ save_checkpoint E (error_checkpoint s e),
           Stop (Raised e))"
    unfolding loop_body_def fetch_and_process_def
    apply (simp only: assms(2,3,4) sum.case if_False Let_def pd)
    apply (simp add: on_exception_def)
    done
  then show ?thesis
    by (subst loop_unfold) (simp add: assms(1))
qed

lemma fetches_process_deals: "fetches (fst (process_deals E s i n ds)) = []"
  by (induction ds arbitrary: i n)
     (auto simp: fetches_save_checkpoint case_prod_beta split: sum.splits)

lemma fetches_loop_body: "length (fetches (fst (loop_body E s))) \<le> 1"
  by (auto simp: loop_body_def fetch_and_process_def finish_page_def on_exception_def Let_def
        fetches_append fetches_save_checkpoint fetches_periodic fetches_process_deals
      split: sum.splits page_result.splits option.splits)

lemma page_count_loop_body:
  "loop_body E s = (evs, Continue s') \<Longrightarrow> page_count s' = page_count s + 1"
  by (auto simp: loop_body_def fetch_and_process_def finish_page_def on_exception_def Let_def
           split: sum.splits if_splits page_result.splits option.splits)

lemma fetches_loop:
  "int (length (fetches (fst (get_hubspot_deals_loop E s)))) \<le> max 0 (1000 - page_count s)"
proof (induction E s rule: get_hubspot_deals_loop.induct)
  case (1 E s)
  show ?case
  proof (cases "page_count s < 1000")
    case False
    then show ?thesis by (subst loop_unfold) simp
  next
    case True
    obtain evs st where b: "loop_body E s = (evs, st)" by (cases "loop_body E s")
    have one: "length (fetches evs) \<le> 1"
      using fetches_loop_body [of E s] b by simp
    show ?thesis
    proof (cases st)
      case (Stop out)
      then show ?thesis
        using True b one by (subst loop_unfold) simp
    next
      case (Continue s')
      have pc: "page_count s' = page_count s + 1"
        using page_count_loop_body b Continue by blast
      have IH: "int (length (fetches (fst (get_hubspot_deals_loop E s')))) \<le> max 0 (1000 - page_count s')"
        using "1.IH" [of evs st s'] True b Continue by simp
      show ?thesis
        apply (subst loop_unfold)
        using True b Continue one IH pc
        by (simp add: fetches_append case_prod_beta)
    qed
  qed
qed

lemma rows_of_pages_append:
  "rows_of_pages E p (xs @ ys) = rows_of_pages E p xs @ rows_of_pages E (p + int (length xs)) ys"
  by (induction xs arbitrary: p) (simp_all add: algebra_simps)

lemma chain_to_end_split:
  "chain_to_end f c pgs \<Longrightarrow>
     \<exists>pre lp c'. pgs = pre @ [lp] \<and> chain f c pre c' \<and> f c' = Inr lp \<and> next_cursor lp = None"
proof (induction f c pgs rule: chain_to_end.induct)
  case (1 f c)
  then show ?case by simp
next
  case (2 f c pg)
  then have "[pg] = [] @ [pg] \<and> chain f c [] c \<and> f c = Inr pg \<and> next_cursor pg = None"
    by simp
  then show ?case by blast
next
  case (3 f c pg v va)
  from "3.prems" obtain n where f: "f c = Inr pg" and n: "next_cursor pg = Some n"
    and rest: "chain_to_end f (Some n) (v # va)"
    by (auto split: option.splits)
  from "3.IH" [OF n rest] obtain pre lp c' where
    "v # va = pre @ [lp]" "chain f (Some n) pre c'" "f c' = Inr lp" "next_cursor lp = None"
    by blast
  then have "pg # v # va = (pg # pre) @ [lp] \<and> chain f c (pg # pre) c' \<and> f c' = Inr lp
      \<and> next_cursor lp = None"
    using f n by simp
  then show ?case by blast
qed

lemma quiet_mono: "quiet E lo hi \<Longrightarrow> lo \<le> lo' \<Longrightarrow> hi' \<le> hi \<Longrightarrow> quiet E lo' hi'"
  by (auto simp: quiet_def)

lemma quiet_at:
  assumes "quiet E lo hi" and "lo \<le> q" and "q < hi"
  shows "poll_cancel E q = Inr False" "poll_pause E (PageBoundary q) = Inr False"
    "poll_pause E (BeforeRecord q i) = Inr False"
  using assms by (auto simp: quiet_def)

lemma run_complete:
  assumes ch: "chain_to_end (fetch E) (after s) pgs"
    and q: "quiet E (page_count s) (page_count s + int (length pgs))"
    and ok: "\<forall>pg\<in>set pgs. transforms_ok E (results pg)"
    and le: "page_count s + int (length pgs) \<le> 1000"
  shows "yields (fst (get_hubspot_deals_loop E s)) = rows_of_pages E (page_count s) pgs"
    and "snd (get_hubspot_deals_loop E s) = Returned"
    and "length (fetches (fst (get_hubspot_deals_loop E s))) = length pgs"
    and "checkpoint_callback E \<noteq> None \<Longrightarrow>
         checkpoints (fst (get_hubspot_deals_loop E s)) \<noteq> [] \<and>
         last (checkpoints (fst (get_hubspot_deals_loop E s))) =
           \<lparr> phase = hubspot_deals_completed,
             records_processed =
               total_records s + int (length (rows_of_pages E (page_count s) pgs)),
             cursor = None, page_number = page_count s + int (length pgs), batch_size = 100,
             payload = CompletedData (page_count s + int (length pgs))
                (total_records s + int (length (rows_of_pages E (page_count s) pgs))) \<rparr>"
proof -
  from chain_to_end_split [OF ch] obtain pre lp c' where pgs: "pgs = pre @ [lp]"
    and pre: "chain (fetch E) (after s) pre c'"
    and f: "fetch E c' = Inr lp" and nc: "next_cursor lp = None"
    by blast
  let ?s' = "snd (walk E s pre)"
  let ?rows = "page_rows E (page_count ?s' + 1) (results lp)"
  let ?t = "?s'\<lparr> total_records := total_records ?s' + int (length ?rows),
                 page_count := page_count ?s' + 1 \<rparr>"
  have len: "int (length pgs) = int (length pre) + 1"
    by (simp add: pgs)
  have st: "?s' = \<lparr> after = c', page_count = page_count s + int (length pre),
       total_records = total_records s + int (length (rows_of_pages E (page_count s) pre)) \<rparr>"
    using walk_state [OF pre] .
  have pc: "page_count ?s' = page_count s + int (length pre)"
    and tr: "total_records ?s' = total_records s + int (length (rows_of_pages E (page_count s) pre))"
    and af: "after ?s' = c'"
    by (simp_all add: st)
  have qpre: "quiet E (page_count s) (page_count s + int (length pre))"
    using quiet_mono [OF q] len by simp
  have okpre: "\<forall>pg\<in>set pre. transforms_ok E (results pg)"
    using ok by (simp add: pgs)
  have w: "get_hubspot_deals_loop E s =
           (fst (walk E s pre) @ fst (get_hubspot_deals_loop E ?s'),
            snd (get_hubspot_deals_loop E ?s'))"
    by (rule loop_walk [OF pre qpre okpre]) (use le len in simp)
  have small: "page_count ?s' < 1000" using pc le len by simp
  have inr: "page_count s \<le> page_count ?s'" "page_count ?s' < page_count s + int (length pgs)"
    using pc len by simp_all
  note qa = quiet_at [OF q inr]
  have oklast: "transforms_ok E (results lp)" using ok by (simp add: pgs)
  have rows: "rows_of_pages E (page_count s) pgs = rows_of_pages E (page_count s) pre @ ?rows"
    by (simp add: pgs rows_of_pages_append pc)
  have fin: "get_hubspot_deals_loop E ?s' =
      (Fetch (after ?s') # map Yield ?rows
         @ periodic_checkpoint E ?t (int (length ?rows)) lp
         @ save_checkpoint E (final_checkpoint ?t),
       Returned)"
    by (rule loop_last_page [OF small qa(1) qa(2) _ _ oklast nc]) (simp_all add: af f qa(3))
  have run: "get_hubspot_deals_loop E s =
      (fst (walk E s pre) @ Fetch (after ?s') # map Yield ?rows
         @ periodic_checkpoint E ?t (int (length ?rows)) lp
         @ save_checkpoint E (final_checkpoint ?t),
       Returned)"
    by (subst w, subst (1 2) fin) simp
  show "yields (fst (get_hubspot_deals_loop E s)) = rows_of_pages E (page_count s) pgs"
    by (simp add: run rows yields_append walk_yields yields_map_Yield yields_periodic
          yields_save_checkpoint)
  show "snd (get_hubspot_deals_loop E s) = Returned"
    by (simp add: run)
  show "length (fetches (fst (get_hubspot_deals_loop E s))) = length pgs"
    using len
    by (simp add: run fetches_append walk_fetches fetches_map_Yield fetches_periodic
          fetches_save_checkpoint)
  have fc: "final_checkpoint ?t =
           \<lparr> phase = hubspot_deals_completed,
             records_processed =
               total_records s + int (length (rows_of_pages E (page_count s) pgs)),
             cursor = None, page_number = page_count s + int (length pgs), batch_size = 100,
             payload = CompletedData (page_count s + int (length pgs))
                (total_records s + int (length (rows_of_pages E (page_count s) pgs))) \<rparr>"
    using pc tr by (simp add: final_checkpoint_def rows len)
  show "checkpoints (fst (get_hubspot_deals_loop E s)) \<noteq> [] \<and>
         last (checkpoints (fst (get_hubspot_deals_loop E s))) =
           \<lparr> phase = hubspot_deals_completed,
             records_processed =
               total_records s + int (length (rows_of_pages E (page_count s) pgs)),
             cursor = None, page_number = page_count s + int (length pgs), batch_size = 100,
             payload = CompletedData (page_count s + int (length pgs))
                (total_records s + int (length (rows_of_pages E (page_count s) pgs))) \<rparr>"
    if "checkpoint_callback E \<noteq> None"
  proof -
    have "checkpoints (save_checkpoint E (final_checkpoint ?t)) = [final_checkpoint ?t]"
      using that by (simp add: checkpoints_save_checkpoint)
    then have "\<exists>xs. checkpoints (fst (get_hubspot_deals_loop E s)) = xs @ [final_checkpoint ?t]"
      by (simp add: run checkpoints_append checkpoints_map_Yield
            del: append_assoc add: append_assoc [symmetric])
    then show ?thesis
      unfolding fc by auto
  qed
qed

subsection \<open>Facts about the concrete inputs\<close>

lemma next_cursor_demo_page:
  "next_cursor (demo_page content n k) = (if Suc k < n then cursor_of (Suc k) else None)"
  by (simp add: next_cursor_def demo_page_def cursor_of_def)

lemma demo_api_cursor_of:
  "k < n \<Longrightarrow> demo_api content n (cursor_of k) = Inr (demo_page content n k)"
  by (simp add: demo_api_def cursor_of_def)

lemma cursor_of_Suc: "cursor_of (Suc k) = Some (replicate (Suc k) CHR ''c'')"
  by (simp add: cursor_of_def)

lemma chain_demo_step:
  "Suc k < n \<Longrightarrow>
   chain (demo_api content n) (cursor_of k) (demo_page content n k # pgs) c' =
   chain (demo_api content n) (cursor_of (Suc k)) pgs c'"
  by (simp add: demo_api_cursor_of next_cursor_demo_page cursor_of_Suc)

lemma demo_chain:
  "k + m < n \<Longrightarrow>
   chain (demo_api content n) (cursor_of k) (map (demo_page content n) [k..<k + m])
     (cursor_of (k + m))"
proof (induction m arbitrary: k)
  case 0
  then show ?case by simp
next
  case (Suc m)
  have up: "[k..<k + Suc m] = k # [Suc k..<Suc k + m]"
    by (simp add: upt_conv_Cons)
  have "chain (demo_api content n) (cursor_of (Suc k))
          (map (demo_page content n) [Suc k..<Suc k + m]) (cursor_of (Suc k + m))"
    using Suc.IH [of "Suc k"] Suc.prems by simp
  moreover have "Suc k < n" using Suc.prems by simp
  ultimately show ?case
    unfolding up list.map by (subst chain_demo_step) simp_all
qed

lemma chain_to_end_step:
  "pgs \<noteq> [] \<Longrightarrow>
   chain_to_end f c (pg # pgs) =
     (f c = Inr pg \<and> (case next_cursor pg of None \<Rightarrow> False | Some n \<Rightarrow> chain_to_end f (Some n) pgs))"
  by (cases pgs) (simp_all cong: option.case_cong)

lemma demo_chain_to_end:
  "k < n \<Longrightarrow>
   chain_to_end (demo_api content n) (cursor_of k) (map (demo_page content n) [k..<n])"
proof (induction "n - k" arbitrary: k)
  case 0
  then show ?case by simp
next
  case (Suc d)
  show ?case
  proof (cases "Suc k = n")
    case True
    then have "[k..<n] = [k]" by (simp add: upt_conv_Cons)
    then show ?thesis
      using True by (simp add: demo_api_cursor_of next_cursor_demo_page)
  next
    case False
    then have lt: "Suc k < n" using Suc.prems by simp
    have up: "[k..<n] = k # [Suc k..<n]"
      using Suc.prems by (simp add: upt_conv_Cons)
    have ne: "map (demo_page content n) [Suc k..<n] \<noteq> []"
      using lt by simp
    have "chain_to_end (demo_api content n) (cursor_of (Suc k))
            (map (demo_page content n) [Suc k..<n])"
      using Suc.hyps(1) [of "Suc k"] Suc.hyps(2) lt by simp
    then show ?thesis
      unfolding up list.map
      by (subst chain_to_end_step [OF ne])
         (use Suc.prems lt in \<open>simp add: demo_api_cursor_of next_cursor_demo_page cursor_of_Suc\<close>)
  qed
qed

lemma transform_deal_plain:
  "\<not> isl (transform_of (demo_env f) pn deal_plain)"
  by (simp add: transform_of_def transform_hubspot_deal_def bind_err_def demo_env_def
        demo_builtins_def deal_plain_def pget_def except_value_type_def parse_date_def
        int_if_present_def float_if_present_def demo_float_def decimal_def)

lemma transform_deal_bad_forecast:
  "transform_of (demo_env f) pn deal_bad_forecast = Inl ValueError"
  by (simp add: transform_of_def transform_hubspot_deal_def bind_err_def demo_env_def
        demo_builtins_def deal_bad_forecast_def pget_def except_value_type_def parse_date_def
        int_if_present_def float_if_present_def demo_float_def decimal_def)

lemma quiet_demo_env: "quiet (demo_env f) lo hi"
  by (simp add: quiet_def poll_cancel_def poll_pause_def demo_env_def)

lemma rows_of_empty_pages:
  "\<forall>pg\<in>set pgs. results pg = [] \<Longrightarrow> rows_of_pages E p pgs = []"
  by (induction pgs arbitrary: p) simp_all

lemma phases_walk:
  "set (phases (checkpoints (fst (walk E s pgs)))) \<subseteq> {hubspot_deals_processing}"
  by (induction pgs arbitrary: s)
     (auto simp: Let_def phases_def checkpoints_append checkpoints_map_Yield
        periodic_checkpoint_def checkpoints_save_checkpoint processing_checkpoint_def)

lemma mixed_first_page_chain:
  "chain (demo_api mixed_content 2) None [demo_page mixed_content 2 0] (cursor_of 1)"
  using demo_chain [of 0 1 2 mixed_content] by (simp add: cursor_of_def)

lemma transform_of_demo_cong:
  assumes "bi E = demo_builtins" and "scan_id E = ''scan-1''" and "tenant_id E = None"
  shows "transform_of E pn d = transform_of (demo_env f) pn d"
  by (simp add: transform_of_def assms demo_env_def)

lemma env_fields:
  "bi cancel_env = demo_builtins" "scan_id cancel_env = ''scan-1''" "tenant_id cancel_env = None"
  "fetch cancel_env = demo_api mixed_content 2" "checkpoint_callback cancel_env \<noteq> None"
  "bi pause_env = demo_builtins" "scan_id pause_env = ''scan-1''" "tenant_id pause_env = None"
  "fetch pause_env = demo_api mixed_content 2" "checkpoint_callback pause_env \<noteq> None"
  "check_cancel_callback pause_env = None"
  "bi mixed_env = demo_builtins" "scan_id mixed_env = ''scan-1''" "tenant_id mixed_env = None"
  "fetch mixed_env = demo_api mixed_content 2" "checkpoint_callback mixed_env \<noteq> None"
  "check_cancel_callback mixed_env = None" "check_pause_callback mixed_env = None"
  by (simp_all add: cancel_env_def pause_env_def mixed_env_def demo_env_def)

lemma first_page_ok:
  assumes "bi E = demo_builtins" and "scan_id E = ''scan-1''" and "tenant_id E = None"
  shows "\<forall>pg\<in>set [demo_page mixed_content 2 0]. transforms_ok E (results pg)"
  using transform_deal_plain [of undefined 0] transform_of_demo_cong [OF assms, of 0 deal_plain undefined]
  by (simp add: demo_page_def mixed_content_def transforms_ok_def)

subsection \<open>A run up to the page where something happens\<close>

lemma run_prefix:
  assumes "s = initial_state resume_from"
    and "chain (fetch E) (after s) pgs c"
    and "quiet E (page_count s) (page_count s + int (length pgs))"
    and "\<forall>pg\<in>set pgs. transforms_ok E (results pg)"
    and "page_count s + int (length pgs) \<le> 1000"
    and "sp = \<lparr> after = c, page_count = page_count s + int (length pgs),
                total_records = total_records s
                  + int (length (rows_of_pages E (page_count s) pgs)) \<rparr>"
  shows "get_hubspot_deals E resume_from =
           (fst (walk E s pgs) @ fst (get_hubspot_deals_loop E sp),
            snd (get_hubspot_deals_loop E sp))"
proof -
  have "snd (walk E s pgs) = sp"
    using walk_state [OF assms(2), of E] assms(6) by simp
  then show ?thesis
    using loop_walk [OF assms(2,3,4,5)] by (simp add: get_hubspot_deals_def assms(1))
qed

lemma last_checkpoint_saved:
  "checkpoint_callback E \<noteq> None \<Longrightarrow>
   checkpoints (xs @ save_checkpoint E cp) \<noteq> [] \<and>
   last (checkpoints (xs @ save_checkpoint E cp)) = cp"
proof -
  assume "checkpoint_callback E \<noteq> None"
  then have "checkpoints (save_checkpoint E cp) = [cp]"
    by (simp add: checkpoints_save_checkpoint)
  then show ?thesis
    by (simp add: checkpoints_append)
qed

text \<open>An iteration that raises ends by handing the error checkpoint to the callback.\<close>

lemma on_exception_raised:
  "on_exception E s e' evs0 = (evs, Stop (Raised e)) \<Longrightarrow>
   \<exists>pre. evs = pre @ save_checkpoint E (error_checkpoint s e)"
  unfolding on_exception_def by blast

lemma finish_page_not_raised: "snd (finish_page E s data n) \<noteq> Stop (Raised e)"
  by (simp add: finish_page_def Let_def split: option.splits)

lemma fetch_and_process_raised:
  assumes "fetch_and_process E s = (evs, Stop (Raised e))"
  shows "\<exists>pre. evs = pre @ save_checkpoint E (error_checkpoint s e)"
proof (cases "fetch E (after s)")
  case (Inl e')
  then have "on_exception E s e' [Fetch (after s)] = (evs, Stop (Raised e))"
    using assms by (simp add: fetch_and_process_def)
  then show ?thesis by (rule on_exception_raised)
next
  case (Inr data)
  define r where "r = (if results data \<noteq> [] then process_deals E s 0 0 (results data)
                       else ([], PageDone 0))"
  have fp: "fetch_and_process E s =
      (case snd r of
         PageRaised e \<Rightarrow> on_exception E s e (Fetch (after s) # fst r)
       | PagePaused \<Rightarrow> (Fetch (after s) # fst r, Stop Returned)
       | PageDone page_records \<Rightarrow>
           (Fetch (after s) # fst r @ fst (finish_page E s data page_records),
            snd (finish_page E s data page_records)))"
    unfolding r_def fetch_and_process_def Let_def by (simp only: Inr sum.case)
  show ?thesis
  proof (cases "snd r")
    case (PageDone n)
    then show ?thesis
      using assms finish_page_not_raised [of E s data n e] by (simp add: fp)
  next
    case PagePaused
    then show ?thesis using assms by (simp add: fp)
  next
    case (PageRaised e')
    then have "on_exception E s e' (Fetch (after s) # fst r) = (evs, Stop (Raised e))"
      using assms by (simp add: fp)
    then show ?thesis by (rule on_exception_raised)
  qed
qed

lemma loop_body_raised:
  assumes "loop_body E s = (evs, Stop (Raised e))"
  shows "\<exists>pre. evs = pre @ save_checkpoint E (error_checkpoint s e)"
proof (cases "poll_cancel E (page_count s)")
  case (Inl e')
  then have "on_exception E s e' [] = (evs, Stop (Raised e))"
    using assms by (simp add: loop_body_def)
  then show ?thesis by (rule on_exception_raised)
next
  case (Inr cancel)
  show ?thesis
  proof (cases cancel)
    case True
    then show ?thesis using assms Inr by (simp add: loop_body_def)
  next
    case False
    show ?thesis
    proof (cases "poll_pause E (PageBoundary (page_count s))")
      case (Inl e')
      then have "on_exception E s e' [] = (evs, Stop (Raised e))"
        using assms \<open>poll_cancel E (page_count s) = Inr cancel\<close> False
        by (simp add: loop_body_def)
      then show ?thesis by (rule on_exception_raised)
    next
      case (Inr pause)
      show ?thesis
      proof (cases pause)
        case True
        then show ?thesis
          using assms \<open>poll_cancel E (page_count s) = Inr cancel\<close> False Inr
          by (simp add: loop_body_def)
      next
        case nopause: False
        have "fetch_and_process E s = (evs, Stop (Raised e))"
          using assms \<open>poll_cancel E (page_count s) = Inr cancel\<close> False Inr nopause
          by (simp add: loop_body_def)
        then show ?thesis by (rule fetch_and_process_raised)
      qed
    qed
  qed
qed

subsection \<open>The attempts of one request\<close>

lemma attempts_range: "[0..<max_retries] = [0, 1, 2]"
  by code_simp

lemma make_request_three_failures:
  assumes "send C 0 = RequestFailed e0" and "send C 1 = RequestFailed e1"
    and "send C 2 = RequestFailed e2"
    and "is_request_exception e0" and "is_request_exception e1"
  shows "make_request C =
           ([Request 0, Sleep (1 + frac (now C 0)), Request 1, Sleep (2 + frac (now C 1)),
             Request 2], Inl e2)"
  unfolding make_request_def attempts_range
  using assms by (simp add: on_request_exception_def max_retries_def)

section \<open>A run that is not interrupted\<close>

text \<open>
  C1. Let the API serve, from the cursor the run starts with, the pages \<open>pgs\<close>, each naming
  the next and the last naming none. If no poll answers true or raises while these pages are
  processed, every record transforms, the page count does not pass 1000 and a checkpoint
  callback is supplied, then the run yields exactly the qualifying rows of the pages, in page
  order and in array order inside a page, requests each page once, returns, and the last
  checkpoint it saves is the completed one, with no cursor and the total count.
\<close>

theorem complete_run_emits_every_page:
  assumes "s = initial_state resume_from"
    and "chain_to_end (fetch E) (after s) pgs"
    and "quiet E (page_count s) (page_count s + int (length pgs))"
    and "\<forall>pg\<in>set pgs. transforms_ok E (results pg)"
    and "page_count s + int (length pgs) \<le> 1000"
    and "checkpoint_callback E \<noteq> None"
  shows "yields (fst (get_hubspot_deals E resume_from)) = rows_of_pages E (page_count s) pgs
       \<and> snd (get_hubspot_deals E resume_from) = Returned
       \<and> length (fetches (fst (get_hubspot_deals E resume_from))) = length pgs
       \<and> checkpoints (fst (get_hubspot_deals E resume_from)) \<noteq> []
       \<and> phase (last (checkpoints (fst (get_hubspot_deals E resume_from))))
           = hubspot_deals_completed
       \<and> cursor (last (checkpoints (fst (get_hubspot_deals E resume_from)))) = None
       \<and> records_processed (last (checkpoints (fst (get_hubspot_deals E resume_from))))
           = total_records s + int (length (rows_of_pages E (page_count s) pgs))"
proof -
  have run: "get_hubspot_deals E resume_from = get_hubspot_deals_loop E s"
    by (simp add: get_hubspot_deals_def assms(1))
  note rc = run_complete [OF assms(2,3,4,5)]
  show ?thesis
    unfolding run using rc(1,2,3) rc(4) [OF assms(6)] by simp
qed

text \<open>The theorem applies to a fresh run over an API of two pages.\<close>

lemma two_pages_chain: "chain_to_end (fetch two_page_env) None two_pages"
  using demo_chain_to_end [of 0 2 "\<lambda>k. [deal_plain]"]
  by (simp add: two_page_env_def two_pages_def demo_env_def cursor_of_def)

lemma two_pages_ok: "\<forall>pg\<in>set two_pages. transforms_ok two_page_env (results pg)"
  using transform_deal_plain [of "demo_api (\<lambda>k. [deal_plain]) 2" 0]
  by (simp add: two_pages_def two_page_env_def demo_page_def transforms_ok_def upt_conv_Cons)

theorem complete_run_emits_every_page_witness:
  "yields (fst (get_hubspot_deals two_page_env None)) = rows_of_pages two_page_env 0 two_pages
   \<and> snd (get_hubspot_deals two_page_env None) = Returned
   \<and> length (fetches (fst (get_hubspot_deals two_page_env None))) = 2
   \<and> checkpoints (fst (get_hubspot_deals two_page_env None)) \<noteq> []
   \<and> phase (last (checkpoints (fst (get_hubspot_deals two_page_env None))))
       = hubspot_deals_completed
   \<and> cursor (last (checkpoints (fst (get_hubspot_deals two_page_env None)))) = None
   \<and> records_processed (last (checkpoints (fst (get_hubspot_deals two_page_env None))))
       = int (length (rows_of_pages two_page_env 0 two_pages))"
proof -
  have s: "initial_state None = initial_state None" by simp
  have ch: "chain_to_end (fetch two_page_env) (after (initial_state None)) two_pages"
    using two_pages_chain by (simp add: initial_state_def)
  have q: "quiet two_page_env (page_count (initial_state None))
             (page_count (initial_state None) + int (length two_pages))"
    by (simp add: two_page_env_def quiet_demo_env)
  have le: "page_count (initial_state None) + int (length two_pages) \<le> 1000"
    by (simp add: initial_state_def two_pages_def)
  have cb: "checkpoint_callback two_page_env \<noteq> None"
    by (simp add: two_page_env_def demo_env_def)
  show ?thesis
    using complete_run_emits_every_page [OF s ch q two_pages_ok le cb]
    by (simp add: initial_state_def two_pages_def)
qed

text \<open>
  Without the bound on the number of pages the statement fails. Over 1001 pages whose only
  record is on the last one, with no pause, no cancellation and no failure, the run stops
  when the page count reaches 1000: the record is never yielded and no completed checkpoint
  is saved.
\<close>

lemma long_prefix_chain:
  "chain (fetch long_env) None (map (demo_page long_content 1001) [0..<1000]) (cursor_of 1000)"
  using demo_chain [of 0 1000 1001 long_content]
  by (simp add: long_env_def demo_env_def cursor_of_def)

theorem long_run_stops_at_1000_pages:
  "chain_to_end (fetch long_env) None long_pages
   \<and> rows_of_pages long_env 0 long_pages \<noteq> []
   \<and> yields (fst (get_hubspot_deals long_env None)) = []
   \<and> hubspot_deals_completed
        \<notin> set (phases (checkpoints (fst (get_hubspot_deals long_env None))))"
proof -
  let ?pre = "map (demo_page long_content 1001) [0..<1000]"
  let ?s = "initial_state None"
  have s: "after ?s = None" "page_count ?s = 0" "total_records ?s = 0"
    by (simp_all add: initial_state_def)
  have ch: "chain_to_end (fetch long_env) None long_pages"
    using demo_chain_to_end [of 0 1001 long_content]
    by (simp add: long_env_def long_pages_def demo_env_def cursor_of_def)
  have empty: "\<forall>pg\<in>set ?pre. results pg = []"
    by (auto simp: demo_page_def long_content_def)
  have ok: "\<forall>pg\<in>set ?pre. transforms_ok long_env (results pg)"
    using empty by (simp add: transforms_ok_def)
  have q: "quiet long_env (page_count ?s) (page_count ?s + int (length ?pre))"
    by (simp add: long_env_def quiet_demo_env)
  have ch': "chain (fetch long_env) (after ?s) ?pre (cursor_of 1000)"
    using long_prefix_chain by (simp add: s)
  have w: "get_hubspot_deals_loop long_env ?s =
      (fst (walk long_env ?s ?pre) @ fst (get_hubspot_deals_loop long_env (snd (walk long_env ?s ?pre))),
       snd (get_hubspot_deals_loop long_env (snd (walk long_env ?s ?pre))))"
    by (rule loop_walk [OF ch' q ok]) (simp add: s)
  have "page_count (snd (walk long_env ?s ?pre)) = 1000"
    using walk_state [OF ch', of long_env] by (simp add: s)
  then have stop: "get_hubspot_deals_loop long_env (snd (walk long_env ?s ?pre)) = ([], Returned)"
    by (subst loop_unfold) simp
  have run: "get_hubspot_deals long_env None = (fst (walk long_env ?s ?pre), Returned)"
    unfolding get_hubspot_deals_def by (subst w) (simp add: stop)
  have y: "yields (fst (get_hubspot_deals long_env None)) = []"
    using rows_of_empty_pages [OF empty] by (simp add: run walk_yields)
  have ph: "hubspot_deals_completed
        \<notin> set (phases (checkpoints (fst (get_hubspot_deals long_env None))))"
    using phases_walk [of long_env ?s ?pre] by (auto simp: run)
  have "[0..<1001] = [0..<1000] @ [1000::nat]"
    using upt_Suc_append [of 0 1000] by simp
  then have lp: "long_pages = ?pre @ [demo_page long_content 1001 1000]"
    by (simp add: long_pages_def)
  have "\<not> isl (transform_of long_env 1001 deal_plain)"
    unfolding long_env_def by (rule transform_deal_plain)
  then obtain r where "transform_of long_env 1001 deal_plain = Inr r"
    by (cases "transform_of long_env 1001 deal_plain") simp_all
  then have "page_rows long_env 1001 [deal_plain] = [r]"
    by (simp add: qualifies_def filtered_out_def long_env_def demo_env_def)
  then have rows: "rows_of_pages long_env 0 long_pages \<noteq> []"
    unfolding lp by (simp add: rows_of_pages_append demo_page_def long_content_def)
  show ?thesis
    using ch rows y ph by simp
qed

section \<open>The ceiling on the number of pages\<close>

text \<open>
  C9. A run requests at most 1000 pages, whatever cursors the API returns. A run seeded from
  a resume state starts counting at the page number of that state, so it requests at most
  1000 minus that number of pages, which is at most 1000 for the page numbers found in
  checkpoints (they are not negative).
\<close>

theorem page_ceiling:
  "length (fetches (fst (get_hubspot_deals E None))) \<le> 1000
   \<and> (0 \<le> resume_page_number r \<longrightarrow>
        length (fetches (fst (get_hubspot_deals E (Some r)))) \<le> 1000)
   \<and> int (length (fetches (fst (get_hubspot_deals E (Some r)))))
        \<le> max 0 (1000 - resume_page_number r)"
proof -
  have a: "int (length (fetches (fst (get_hubspot_deals E None)))) \<le> max 0 (1000 - 0)"
    using fetches_loop [of E "initial_state None"]
    by (simp add: get_hubspot_deals_def initial_state_def)
  have b: "int (length (fetches (fst (get_hubspot_deals E (Some r)))))
        \<le> max 0 (1000 - resume_page_number r)"
    using fetches_loop [of E "initial_state (Some r)"]
    by (simp add: get_hubspot_deals_def initial_state_def)
  show ?thesis
    using a b by auto
qed

theorem page_ceiling_witness:
  "(0::int) \<le> 995
   \<and> length (fetches (fst (get_hubspot_deals two_page_env
        (Some \<lparr> resume_cursor = None, resume_page_number = 995,
                resume_records_processed = 0 \<rparr>)))) \<le> 1000"
  using page_ceiling [of two_page_env
      "\<lparr> resume_cursor = None, resume_page_number = 995, resume_records_processed = 0 \<rparr>"]
  by simp

section \<open>Cancellation at a page boundary\<close>

text \<open>
  C4. Let the pages \<open>pgs\<close> be processed undisturbed and let the cancel predicate answer true
  at the boundary before the next page, whose cursor is \<open>c\<close>. Then the run does nothing more
  than save the cancelled checkpoint: no request is made for that page or a later one, no
  row of them is yielded, the checkpoint carries the total of the pages before, and the run
  returns. Nothing is assumed about the pause predicate at that boundary, so the checkpoint
  is the cancelled one also when both predicates are true.
\<close>

theorem cancel_at_page_boundary:
  assumes "s = initial_state resume_from"
    and "chain (fetch E) (after s) pgs c"
    and "quiet E (page_count s) (page_count s + int (length pgs))"
    and "\<forall>pg\<in>set pgs. transforms_ok E (results pg)"
    and "page_count s + int (length pgs) < 1000"
    and "poll_cancel E (page_count s + int (length pgs)) = Inr True"
    and "checkpoint_callback E \<noteq> None"
    and "cp = \<lparr> phase = hubspot_deals_cancelled,
                records_processed =
                  total_records s + int (length (rows_of_pages E (page_count s) pgs)),
                cursor = c, page_number = page_count s + int (length pgs), batch_size = 100,
                payload = CancelData (page_count s + int (length pgs)) \<rparr>"
  shows "fst (get_hubspot_deals E resume_from) = fst (walk E s pgs) @ save_checkpoint E cp
       \<and> snd (get_hubspot_deals E resume_from) = Returned
       \<and> yields (fst (get_hubspot_deals E resume_from)) = rows_of_pages E (page_count s) pgs
       \<and> length (fetches (fst (get_hubspot_deals E resume_from))) = length pgs
       \<and> checkpoints (fst (get_hubspot_deals E resume_from)) \<noteq> []
       \<and> last (checkpoints (fst (get_hubspot_deals E resume_from))) = cp"
proof -
  define sp where "sp = \<lparr> after = c, page_count = page_count s + int (length pgs),
                total_records = total_records s
                  + int (length (rows_of_pages E (page_count s) pgs)) \<rparr>"
  have le: "page_count s + int (length pgs) \<le> 1000" using assms(5) by simp
  note pre = run_prefix [OF assms(1,2,3,4) le sp_def]
  have "get_hubspot_deals_loop E sp = (save_checkpoint E (cancel_checkpoint sp), Returned)"
    by (rule loop_cancel) (simp_all add: sp_def assms(5,6))
  moreover have "cancel_checkpoint sp = cp"
    by (simp add: cancel_checkpoint_def sp_def assms(8))
  ultimately have run: "get_hubspot_deals E resume_from
      = (fst (walk E s pgs) @ save_checkpoint E cp, Returned)"
    using pre by simp
  show ?thesis
    using last_checkpoint_saved [OF assms(7), of "fst (walk E s pgs)" cp]
    by (simp add: run yields_append walk_yields yields_save_checkpoint
          fetches_append walk_fetches fetches_save_checkpoint)
qed

text \<open>The theorem applies to the two-page run in which both predicates are true at the
  boundary before the second page.\<close>

theorem cancel_at_page_boundary_witness:
  "last (checkpoints (fst (get_hubspot_deals cancel_env None)))
   = \<lparr> phase = hubspot_deals_cancelled,
       records_processed =
         int (length (rows_of_pages cancel_env 0 [demo_page mixed_content 2 0])),
       cursor = cursor_of 1, page_number = 1, batch_size = 100, payload = CancelData 1 \<rparr>"
proof -
  let ?pgs = "[demo_page mixed_content 2 0]"
  let ?s = "initial_state None"
  have s: "after ?s = None" "page_count ?s = 0" "total_records ?s = 0"
    by (simp_all add: initial_state_def)
  have ch: "chain (fetch cancel_env) (after ?s) ?pgs (cursor_of 1)"
    using mixed_first_page_chain by (simp add: s env_fields)
  have q: "quiet cancel_env (page_count ?s) (page_count ?s + int (length ?pgs))"
    by (simp add: s quiet_def poll_cancel_def poll_pause_def cancel_env_def)
  have ok: "\<forall>pg\<in>set ?pgs. transforms_ok cancel_env (results pg)"
    by (rule first_page_ok) (simp_all add: env_fields)
  have lt: "page_count ?s + int (length ?pgs) < 1000"
    by (simp add: s)
  have c: "poll_cancel cancel_env (page_count ?s + int (length ?pgs)) = Inr True"
    by (simp add: s poll_cancel_def cancel_env_def)
  note w = cancel_at_page_boundary [OF refl ch q ok lt c env_fields(5) refl]
  note l = w [THEN conjunct2, THEN conjunct2, THEN conjunct2, THEN conjunct2, THEN conjunct2]
  show ?thesis
    using l by (simp add: s)
qed

section \<open>Pause inside a page\<close>

text \<open>
  C3. Let the pages \<open>pgs\<close> be processed undisturbed, let the page \<open>pg\<close> be fetched with the
  cursor \<open>c\<close>, and let the pause predicate answer false before the records \<open>0, ..., j - 1\<close>
  of that page and true before record \<open>j\<close> (\<open>j = 0\<close> is the poll before the first record).
  Then the run yields the \<open>m\<close> qualifying rows among the first \<open>j\<close> records, saves a
  paused_mid_page checkpoint whose count is the total of the pages before plus \<open>m\<close> and whose
  cursor is \<open>c\<close>, the cursor the page was fetched with, and returns without touching the rest
  of the page.
\<close>

theorem pause_in_mid_page:
  assumes "s = initial_state resume_from"
    and "chain (fetch E) (after s) pgs c"
    and "quiet E (page_count s) (page_count s + int (length pgs))"
    and "\<forall>pg\<in>set pgs. transforms_ok E (results pg)"
    and "p = page_count s + int (length pgs)" and "p < 1000"
    and "poll_cancel E p = Inr False"
    and "poll_pause E (PageBoundary p) = Inr False"
    and "fetch E c = Inr pg"
    and "j < length (results pg)"
    and "\<forall>k<j. poll_pause E (BeforeRecord p k) = Inr False"
    and "poll_pause E (BeforeRecord p j) = Inr True"
    and "transforms_ok E (take j (results pg))"
    and "checkpoint_callback E \<noteq> None"
    and "m = int (length (page_rows E (p + 1) (take j (results pg))))"
    and "cp = \<lparr> phase = hubspot_deals_paused_mid_page,
                records_processed =
                  total_records s + int (length (rows_of_pages E (page_count s) pgs)) + m,
                cursor = c, page_number = p, batch_size = 100,
                payload = MidPageData p m \<rparr>"
  shows "fst (get_hubspot_deals E resume_from) =
           fst (walk E s pgs) @ Fetch c # map Yield (page_rows E (p + 1) (take j (results pg)))
             @ save_checkpoint E cp
       \<and> snd (get_hubspot_deals E resume_from) = Returned
       \<and> yields (fst (get_hubspot_deals E resume_from)) =
           rows_of_pages E (page_count s) pgs @ page_rows E (p + 1) (take j (results pg))
       \<and> checkpoints (fst (get_hubspot_deals E resume_from)) \<noteq> []
       \<and> last (checkpoints (fst (get_hubspot_deals E resume_from))) = cp"
proof -
  define sp where "sp = \<lparr> after = c, page_count = page_count s + int (length pgs),
                total_records = total_records s
                  + int (length (rows_of_pages E (page_count s) pgs)) \<rparr>"
  have sp: "after sp = c" "page_count sp = p"
    "total_records sp = total_records s + int (length (rows_of_pages E (page_count s) pgs))"
    by (simp_all add: sp_def assms(5))
  have le: "page_count s + int (length pgs) \<le> 1000" using assms(5,6) by simp
  note pre = run_prefix [OF assms(1,2,3,4) le sp_def]
  have "get_hubspot_deals_loop E sp =
      (Fetch (after sp) # map Yield (page_rows E (page_count sp + 1) (take j (results pg)))
         @ save_checkpoint E
             (mid_page_checkpoint sp
                (int (length (page_rows E (page_count sp + 1) (take j (results pg)))))),
       Returned)"
    by (rule loop_mid_page_pause [where j = j])
       (simp_all add: sp assms(6,7,8,9,10,11,12,13))
  moreover have "mid_page_checkpoint sp
      (int (length (page_rows E (page_count sp + 1) (take j (results pg))))) = cp"
    by (simp add: mid_page_checkpoint_def sp assms(15,16))
  ultimately have run: "get_hubspot_deals E resume_from =
      (fst (walk E s pgs) @ Fetch c # map Yield (page_rows E (p + 1) (take j (results pg)))
         @ save_checkpoint E cp, Returned)"
    using pre by (simp add: sp)
  have app: "fst (walk E s pgs) @ Fetch c # map Yield (page_rows E (p + 1) (take j (results pg)))
         @ save_checkpoint E cp
      = (fst (walk E s pgs) @ Fetch c # map Yield (page_rows E (p + 1) (take j (results pg))))
         @ save_checkpoint E cp"
    by simp
  show ?thesis
    using last_checkpoint_saved [OF assms(14),
        of "fst (walk E s pgs) @ Fetch c # map Yield (page_rows E (p + 1) (take j (results pg)))" cp]
    unfolding run fst_conv snd_conv app
    by (simp add: yields_append walk_yields yields_save_checkpoint yields_map_Yield)
qed

text \<open>The theorem applies to the two-page run paused before the second record of the
  second page.\<close>

theorem pause_in_mid_page_witness:
  "last (checkpoints (fst (get_hubspot_deals pause_env None)))
   = \<lparr> phase = hubspot_deals_paused_mid_page,
       records_processed =
         int (length (rows_of_pages pause_env 0 [demo_page mixed_content 2 0]))
         + int (length (page_rows pause_env 2 [deal_plain])),
       cursor = cursor_of 1, page_number = 1, batch_size = 100,
       payload = MidPageData 1 (int (length (page_rows pause_env 2 [deal_plain]))) \<rparr>"
proof -
  let ?pgs = "[demo_page mixed_content 2 0]"
  let ?pg = "demo_page mixed_content 2 1"
  let ?s = "initial_state None"
  have s: "after ?s = None" "page_count ?s = 0" "total_records ?s = 0"
    by (simp_all add: initial_state_def)
  have ch: "chain (fetch pause_env) (after ?s) ?pgs (cursor_of 1)"
    using mixed_first_page_chain by (simp add: s env_fields)
  have q: "quiet pause_env (page_count ?s) (page_count ?s + int (length ?pgs))"
    by (simp add: s quiet_def poll_cancel_def poll_pause_def pause_env_def mixed_env_def demo_env_def)
  have ok: "\<forall>pg\<in>set ?pgs. transforms_ok pause_env (results pg)"
    by (rule first_page_ok) (simp_all add: env_fields)
  have p: "(1::int) = page_count ?s + int (length ?pgs)" by (simp add: s)
  have c: "poll_cancel pause_env 1 = Inr False"
    by (simp add: poll_cancel_def env_fields)
  have b: "poll_pause pause_env (PageBoundary 1) = Inr False"
    by (simp add: poll_pause_def pause_env_def)
  have f: "fetch pause_env (cursor_of 1) = Inr ?pg"
    by (simp add: env_fields demo_api_cursor_of)
  have j: "1 < length (results ?pg)"
    by (simp add: demo_page_def mixed_content_def)
  have before: "\<forall>k<1. poll_pause pause_env (BeforeRecord 1 k) = Inr False"
    by (simp add: poll_pause_def pause_env_def)
  have at: "poll_pause pause_env (BeforeRecord 1 1) = Inr True"
    by (simp add: poll_pause_def pause_env_def)
  have tk: "take 1 (results ?pg) = [deal_plain]"
    by (simp add: demo_page_def mixed_content_def)
  have ok1: "transforms_ok pause_env (take 1 (results ?pg))"
    using first_page_ok [of pause_env] tk
    by (simp add: env_fields demo_page_def mixed_content_def)
  note w = pause_in_mid_page [OF refl ch q ok p _ c b f j before at ok1 env_fields(10) refl refl]
  note l = w [THEN conjunct2, THEN conjunct2, THEN conjunct2, THEN conjunct2]
  have tk': "take (Suc 0) (results (demo_page mixed_content 2 (Suc 0))) = [deal_plain]"
    using tk by simp
  show ?thesis
    using l by (simp add: s tk' del: page_rows.simps)
qed

section \<open>An exception while the records of a page are processed\<close>

text \<open>
  C10. Let the pages \<open>pgs\<close> be processed undisturbed, let the page \<open>pg\<close> be fetched with the
  cursor \<open>c\<close>, and let the transformation of its record \<open>j\<close> raise \<open>e\<close> after the records
  before it were transformed. Then the rows already yielded from this page stay yielded, the
  error checkpoint carries the total of the pages before only (the counters are updated
  after the page, which is never reached), its cursor is \<open>c\<close>, and the run raises \<open>e\<close>. The
  last conjunct is the general fact: whatever raises inside an iteration, the iteration ends
  by handing the error checkpoint, built from the state at the head of the iteration, to the
  callback.
\<close>

theorem exception_inside_a_page:
  assumes "s = initial_state resume_from"
    and "chain (fetch E) (after s) pgs c"
    and "quiet E (page_count s) (page_count s + int (length pgs))"
    and "\<forall>pg\<in>set pgs. transforms_ok E (results pg)"
    and "p = page_count s + int (length pgs)" and "p < 1000"
    and "poll_cancel E p = Inr False"
    and "poll_pause E (PageBoundary p) = Inr False"
    and "fetch E c = Inr pg"
    and "j < length (results pg)"
    and "\<forall>k\<le>j. poll_pause E (BeforeRecord p k) = Inr False"
    and "transforms_ok E (take j (results pg))"
    and "transform_of E (p + 1) (results pg ! j) = Inl e"
    and "checkpoint_callback E \<noteq> None"
    and "cp = \<lparr> phase = hubspot_deals_error,
                records_processed =
                  total_records s + int (length (rows_of_pages E (page_count s) pgs)),
                cursor = c, page_number = p, batch_size = 100,
                payload = ErrorData e (p + 1) c \<rparr>"
  shows "fst (get_hubspot_deals E resume_from) =
           fst (walk E s pgs) @ Fetch c # map Yield (page_rows E (p + 1) (take j (results pg)))
             @ save_checkpoint E cp
       \<and> snd (get_hubspot_deals E resume_from) = Raised e
       \<and> yields (fst (get_hubspot_deals E resume_from)) =
           rows_of_pages E (page_count s) pgs @ page_rows E (p + 1) (take j (results pg))
       \<and> checkpoints (fst (get_hubspot_deals E resume_from)) \<noteq> []
       \<and> last (checkpoints (fst (get_hubspot_deals E resume_from))) = cp
       \<and> (\<forall>(E' :: 'a env) s' evs e'. loop_body E' s' = (evs, Stop (Raised e')) \<longrightarrow>
             (\<exists>before. evs = before @ save_checkpoint E' (error_checkpoint s' e')))"
proof -
  define sp where "sp = \<lparr> after = c, page_count = page_count s + int (length pgs),
                total_records = total_records s
                  + int (length (rows_of_pages E (page_count s) pgs)) \<rparr>"
  have sp: "after sp = c" "page_count sp = p"
    "total_records sp = total_records s + int (length (rows_of_pages E (page_count s) pgs))"
    by (simp_all add: sp_def assms(5))
  have le: "page_count s + int (length pgs) \<le> 1000" using assms(5,6) by simp
  note pre = run_prefix [OF assms(1,2,3,4) le sp_def]
  have "get_hubspot_deals_loop E sp =
      (Fetch (after sp) # map Yield (page_rows E (page_count sp + 1) (take j (results pg)))
         @ save_checkpoint E (error_checkpoint sp e),
       Raised e)"
    by (rule loop_transform_raises [where j = j])
       (simp_all add: sp assms(6,7,8,9,10,11,12,13))
  moreover have "error_checkpoint sp e = cp"
    by (simp add: error_checkpoint_def sp assms(15))
  ultimately have run: "get_hubspot_deals E resume_from =
      (fst (walk E s pgs) @ Fetch c # map Yield (page_rows E (p + 1) (take j (results pg)))
         @ save_checkpoint E cp, Raised e)"
    using pre by (simp add: sp)
  have app: "fst (walk E s pgs) @ Fetch c # map Yield (page_rows E (p + 1) (take j (results pg)))
         @ save_checkpoint E cp
      = (fst (walk E s pgs) @ Fetch c # map Yield (page_rows E (p + 1) (take j (results pg))))
         @ save_checkpoint E cp"
    by simp
  have general: "\<forall>(E' :: 'a env) s' evs e'. loop_body E' s' = (evs, Stop (Raised e')) \<longrightarrow>
             (\<exists>before. evs = before @ save_checkpoint E' (error_checkpoint s' e'))"
    using loop_body_raised by blast
  have "fst (get_hubspot_deals E resume_from) =
           fst (walk E s pgs) @ Fetch c # map Yield (page_rows E (p + 1) (take j (results pg)))
             @ save_checkpoint E cp
       \<and> snd (get_hubspot_deals E resume_from) = Raised e
       \<and> yields (fst (get_hubspot_deals E resume_from)) =
           rows_of_pages E (page_count s) pgs @ page_rows E (p + 1) (take j (results pg))
       \<and> checkpoints (fst (get_hubspot_deals E resume_from)) \<noteq> []
       \<and> last (checkpoints (fst (get_hubspot_deals E resume_from))) = cp"
    using last_checkpoint_saved [OF assms(14),
        of "fst (walk E s pgs) @ Fetch c # map Yield (page_rows E (p + 1) (take j (results pg)))" cp]
    unfolding run fst_conv snd_conv app
    by (simp add: yields_append walk_yields yields_save_checkpoint yields_map_Yield)
  then show ?thesis
    using general by blast
qed

text \<open>The theorem applies to the two-page run whose second page holds a record that
  transforms and then one whose forecast amount is \<open>"N/A"\<close>.\<close>

theorem exception_inside_a_page_witness:
  "snd (get_hubspot_deals mixed_env None) = Raised ValueError
   \<and> yields (fst (get_hubspot_deals mixed_env None)) =
       rows_of_pages mixed_env 0 [demo_page mixed_content 2 0]
         @ page_rows mixed_env 2 [deal_plain]
   \<and> last (checkpoints (fst (get_hubspot_deals mixed_env None)))
   = \<lparr> phase = hubspot_deals_error,
       records_processed =
         int (length (rows_of_pages mixed_env 0 [demo_page mixed_content 2 0])),
       cursor = cursor_of 1, page_number = 1, batch_size = 100,
       payload = ErrorData ValueError 2 (cursor_of 1) \<rparr>"
proof -
  let ?pgs = "[demo_page mixed_content 2 0]"
  let ?pg = "demo_page mixed_content 2 1"
  let ?s = "initial_state None"
  have s: "after ?s = None" "page_count ?s = 0" "total_records ?s = 0"
    by (simp_all add: initial_state_def)
  have ch: "chain (fetch mixed_env) (after ?s) ?pgs (cursor_of 1)"
    using mixed_first_page_chain by (simp add: s env_fields)
  have q: "quiet mixed_env (page_count ?s) (page_count ?s + int (length ?pgs))"
    unfolding mixed_env_def by (rule quiet_demo_env)
  have ok: "\<forall>pg\<in>set ?pgs. transforms_ok mixed_env (results pg)"
    by (rule first_page_ok) (simp_all add: env_fields)
  have p: "(1::int) = page_count ?s + int (length ?pgs)" by (simp add: s)
  have c: "poll_cancel mixed_env 1 = Inr False"
    by (simp add: poll_cancel_def env_fields)
  have b: "poll_pause mixed_env (PageBoundary 1) = Inr False"
    by (simp add: poll_pause_def env_fields)
  have f: "fetch mixed_env (cursor_of 1) = Inr ?pg"
    by (simp add: env_fields demo_api_cursor_of)
  have j: "1 < length (results ?pg)"
    by (simp add: demo_page_def mixed_content_def)
  have before: "\<forall>k\<le>1. poll_pause mixed_env (BeforeRecord 1 k) = Inr False"
    by (simp add: poll_pause_def env_fields)
  have tk: "take 1 (results ?pg) = [deal_plain]"
    by (simp add: demo_page_def mixed_content_def)
  have ok1: "transforms_ok mixed_env (take 1 (results ?pg))"
    using first_page_ok [of mixed_env] tk
    by (simp add: env_fields demo_page_def mixed_content_def)
  have bad: "transform_of mixed_env (1 + 1) (results ?pg ! 1) = Inl ValueError"
    using transform_deal_bad_forecast [of "demo_api mixed_content 2" 2]
    by (simp add: mixed_env_def demo_page_def mixed_content_def)
  note w = exception_inside_a_page
             [OF refl ch q ok p _ c b f j before ok1 bad env_fields(16) refl]
  have tk': "take (Suc 0) (results (demo_page mixed_content 2 (Suc 0))) = [deal_plain]"
    using tk by simp
  show ?thesis
    using w [THEN conjunct2, THEN conjunct1]
      w [THEN conjunct2, THEN conjunct2, THEN conjunct1]
      w [THEN conjunct2, THEN conjunct2, THEN conjunct2, THEN conjunct2, THEN conjunct1]
    by (simp add: s tk' del: page_rows.simps rows_of_pages.simps)
qed

section \<open>A fetch that fails for good\<close>

text \<open>
  C7. Let the pages \<open>pgs\<close> be processed undisturbed and let the engine fetch through the
  client. If the three attempts of the request for the next page, with cursor \<open>c\<close>, all raise
  a request exception, the client makes exactly these three attempts, backing off after the
  first and the second, and raises the last exception. The engine asks once, saves an error
  checkpoint whose cursor is \<open>c\<close> and whose count is the total of the pages before, and
  raises that exception.
\<close>

theorem fetch_failure_after_three_attempts:
  assumes "s = initial_state resume_from"
    and "chain (fetch E) (after s) pgs c"
    and "quiet E (page_count s) (page_count s + int (length pgs))"
    and "\<forall>pg\<in>set pgs. transforms_ok E (results pg)"
    and "p = page_count s + int (length pgs)" and "p < 1000"
    and "poll_cancel E p = Inr False"
    and "poll_pause E (PageBoundary p) = Inr False"
    and "fetch E = get_deals api"
    and "send (api (sent_cursor c)) 0 = RequestFailed e0"
    and "send (api (sent_cursor c)) 1 = RequestFailed e1"
    and "send (api (sent_cursor c)) 2 = RequestFailed e2"
    and "is_request_exception e0" and "is_request_exception e1"
    and "checkpoint_callback E \<noteq> None"
    and "cp = \<lparr> phase = hubspot_deals_error,
                records_processed =
                  total_records s + int (length (rows_of_pages E (page_count s) pgs)),
                cursor = c, page_number = p, batch_size = 100,
                payload = ErrorData e2 (p + 1) c \<rparr>"
  shows "make_request (api (sent_cursor c)) =
           ([Request 0, Sleep (1 + frac (now (api (sent_cursor c)) 0)),
             Request 1, Sleep (2 + frac (now (api (sent_cursor c)) 1)),
             Request 2], Inl e2)
       \<and> fst (get_hubspot_deals E resume_from) =
           fst (walk E s pgs) @ Fetch c # save_checkpoint E cp
       \<and> snd (get_hubspot_deals E resume_from) = Raised e2
       \<and> yields (fst (get_hubspot_deals E resume_from)) = rows_of_pages E (page_count s) pgs
       \<and> length (fetches (fst (get_hubspot_deals E resume_from))) = length pgs + 1
       \<and> checkpoints (fst (get_hubspot_deals E resume_from)) \<noteq> []
       \<and> last (checkpoints (fst (get_hubspot_deals E resume_from))) = cp"
proof -
  define sp where "sp = \<lparr> after = c, page_count = page_count s + int (length pgs),
                total_records = total_records s
                  + int (length (rows_of_pages E (page_count s) pgs)) \<rparr>"
  have sp: "after sp = c" "page_count sp = p"
    "total_records sp = total_records s + int (length (rows_of_pages E (page_count s) pgs))"
    by (simp_all add: sp_def assms(5))
  have le: "page_count s + int (length pgs) \<le> 1000" using assms(5,6) by simp
  note pre = run_prefix [OF assms(1,2,3,4) le sp_def]
  note mr = make_request_three_failures [OF assms(10,11,12,13,14)]
  have "get_deals api c = Inl e2"
    by (simp add: get_deals_def mr)
  then have f: "fetch E c = Inl e2"
    unfolding assms(9) .
  have "get_hubspot_deals_loop E sp =
      (Fetch (after sp) # save_checkpoint E (error_checkpoint sp e2), Raised e2)"
    by (rule loop_fetch_fails) (simp_all add: sp assms(6,7,8) f)
  moreover have "error_checkpoint sp e2 = cp"
    by (simp add: error_checkpoint_def sp assms(16))
  ultimately have run: "get_hubspot_deals E resume_from =
      (fst (walk E s pgs) @ Fetch c # save_checkpoint E cp, Raised e2)"
    using pre by (simp add: sp)
  have app: "fst (walk E s pgs) @ Fetch c # save_checkpoint E cp
      = (fst (walk E s pgs) @ [Fetch c]) @ save_checkpoint E cp"
    by simp
  have "fst (get_hubspot_deals E resume_from) =
           fst (walk E s pgs) @ Fetch c # save_checkpoint E cp
       \<and> snd (get_hubspot_deals E resume_from) = Raised e2
       \<and> yields (fst (get_hubspot_deals E resume_from)) = rows_of_pages E (page_count s) pgs
       \<and> length (fetches (fst (get_hubspot_deals E resume_from))) = length pgs + 1
       \<and> checkpoints (fst (get_hubspot_deals E resume_from)) \<noteq> []
       \<and> last (checkpoints (fst (get_hubspot_deals E resume_from))) = cp"
    using last_checkpoint_saved [OF assms(15), of "fst (walk E s pgs) @ [Fetch c]" cp]
    unfolding run fst_conv snd_conv app
    by (simp add: yields_append walk_yields yields_save_checkpoint
          fetches_append walk_fetches fetches_save_checkpoint)
  then show ?thesis
    using mr by blast
qed

lemma flaky_first_page: "get_deals flaky_api None = Inr (demo_page mixed_content 2 0)"
  by (simp add: get_deals_def sent_cursor_def make_request_def attempts_range flaky_api_def
        handle_rate_limit_response_def)

lemma flaky_fields:
  "bi flaky_env = demo_builtins" "scan_id flaky_env = ''scan-1''" "tenant_id flaky_env = None"
  "fetch flaky_env = get_deals flaky_api" "checkpoint_callback flaky_env \<noteq> None"
  "check_cancel_callback flaky_env = None" "check_pause_callback flaky_env = None"
  by (simp_all add: flaky_env_def demo_env_def)

text \<open>The theorem applies to the run against the server that answers the first request and
  resets the connection on every attempt of the second.\<close>

theorem fetch_failure_after_three_attempts_witness:
  "snd (get_hubspot_deals flaky_env None) = Raised (RequestException ''connection reset'')
   \<and> length (fetches (fst (get_hubspot_deals flaky_env None))) = 2
   \<and> last (checkpoints (fst (get_hubspot_deals flaky_env None)))
   = \<lparr> phase = hubspot_deals_error,
       records_processed =
         int (length (rows_of_pages flaky_env 0 [demo_page mixed_content 2 0])),
       cursor = cursor_of 1, page_number = 1, batch_size = 100,
       payload = ErrorData (RequestException ''connection reset'') 2 (cursor_of 1) \<rparr>"
proof -
  let ?pgs = "[demo_page mixed_content 2 0]"
  let ?s = "initial_state None"
  let ?e = "RequestException ''connection reset''"
  have s: "after ?s = None" "page_count ?s = 0" "total_records ?s = 0"
    by (simp_all add: initial_state_def)
  have ch: "chain (fetch flaky_env) (after ?s) ?pgs (cursor_of 1)"
    by (simp add: s flaky_fields flaky_first_page next_cursor_demo_page cursor_of_def)
  have q: "quiet flaky_env (page_count ?s) (page_count ?s + int (length ?pgs))"
    unfolding flaky_env_def by (rule quiet_demo_env)
  have ok: "\<forall>pg\<in>set ?pgs. transforms_ok flaky_env (results pg)"
    by (rule first_page_ok) (simp_all add: flaky_fields)
  have p: "(1::int) = page_count ?s + int (length ?pgs)" by (simp add: s)
  have c: "poll_cancel flaky_env 1 = Inr False"
    by (simp add: poll_cancel_def flaky_fields)
  have b: "poll_pause flaky_env (PageBoundary 1) = Inr False"
    by (simp add: poll_pause_def flaky_fields)
  have snd: "send (flaky_api (sent_cursor (cursor_of 1))) 0 = RequestFailed ?e"
    "send (flaky_api (sent_cursor (cursor_of 1))) 1 = RequestFailed ?e"
    "send (flaky_api (sent_cursor (cursor_of 1))) 2 = RequestFailed ?e"
    by (simp_all add: flaky_api_def sent_cursor_def cursor_of_def)
  have re: "is_request_exception ?e" by simp
  note w = fetch_failure_after_three_attempts
             [OF refl ch q ok p _ c b flaky_fields(4) snd re re flaky_fields(5) refl]
  show ?thesis
    using w [THEN conjunct2, THEN conjunct2, THEN conjunct1]
      w [THEN conjunct2, THEN conjunct2, THEN conjunct2, THEN conjunct2, THEN conjunct1]
      w [THEN conjunct2, THEN conjunct2, THEN conjunct2, THEN conjunct2, THEN conjunct2,
         THEN conjunct2]
    by (simp add: s del: rows_of_pages.simps)
qed

section \<open>A checkpoint callback that raises\<close>

text \<open>Two runs that differ only in the checkpoint callback do the same things, up to the
  mark of whether a checkpoint was stored: first for the parts of an iteration, then for the
  loop.\<close>

lemma save_checkpoint_forget:
  "map forget_failure (save_checkpoint (E\<lparr> checkpoint_callback := Some cb \<rparr>) cp) = [Checkpoint cp]"
  by (simp add: save_checkpoint_def split: option.splits)

lemma polls_callback [simp]:
  "poll_cancel (E\<lparr> checkpoint_callback := x \<rparr>) = poll_cancel E"
  "poll_pause (E\<lparr> checkpoint_callback := x \<rparr>) = poll_pause E"
  "transform_of (E\<lparr> checkpoint_callback := x \<rparr>) = transform_of E"
  by (simp_all add: poll_cancel_def poll_pause_def transform_of_def fun_eq_iff)

lemma process_deals_forget:
  "map forget_failure (fst (process_deals (E\<lparr> checkpoint_callback := Some cb \<rparr>) s i n ds)) =
   map forget_failure (fst (process_deals (E\<lparr> checkpoint_callback := Some cb' \<rparr>) s i n ds))
   \<and> snd (process_deals (E\<lparr> checkpoint_callback := Some cb \<rparr>) s i n ds) =
     snd (process_deals (E\<lparr> checkpoint_callback := Some cb' \<rparr>) s i n ds)"
proof (induction ds arbitrary: i n)
  case Nil
  then show ?case by simp
next
  case (Cons d ds)
  show ?case
    using Cons.IH [of "Suc i" n] Cons.IH [of "Suc i" "n + 1"]
    by (simp add: save_checkpoint_forget case_prod_beta split: sum.splits)
qed

lemma periodic_forget:
  "map forget_failure (periodic_checkpoint (E\<lparr> checkpoint_callback := Some cb \<rparr>) s n pg) =
   map forget_failure (periodic_checkpoint (E\<lparr> checkpoint_callback := Some cb' \<rparr>) s n pg)"
  by (simp add: periodic_checkpoint_def save_checkpoint_forget)

lemma finish_page_forget:
  "map forget_failure (fst (finish_page (E\<lparr> checkpoint_callback := Some cb \<rparr>) s data n)) =
   map forget_failure (fst (finish_page (E\<lparr> checkpoint_callback := Some cb' \<rparr>) s data n))
   \<and> snd (finish_page (E\<lparr> checkpoint_callback := Some cb \<rparr>) s data n) =
     snd (finish_page (E\<lparr> checkpoint_callback := Some cb' \<rparr>) s data n)"
  using periodic_forget [where E = E and cb = cb and cb' = cb' and n = n and pg = data]
  by (simp add: finish_page_def Let_def save_checkpoint_forget split: option.splits)

lemma on_exception_forget:
  "map forget_failure xs = map forget_failure ys \<Longrightarrow>
   map forget_failure (fst (on_exception (E\<lparr> checkpoint_callback := Some cb \<rparr>) s e xs)) =
   map forget_failure (fst (on_exception (E\<lparr> checkpoint_callback := Some cb' \<rparr>) s e ys))
   \<and> snd (on_exception (E\<lparr> checkpoint_callback := Some cb \<rparr>) s e xs) =
     snd (on_exception (E\<lparr> checkpoint_callback := Some cb' \<rparr>) s e ys)"
  by (simp add: on_exception_def save_checkpoint_forget)

lemma fetch_and_process_forget:
  "map forget_failure (fst (fetch_and_process (E\<lparr> checkpoint_callback := Some cb \<rparr>) s)) =
   map forget_failure (fst (fetch_and_process (E\<lparr> checkpoint_callback := Some cb' \<rparr>) s))
   \<and> snd (fetch_and_process (E\<lparr> checkpoint_callback := Some cb \<rparr>) s) =
     snd (fetch_and_process (E\<lparr> checkpoint_callback := Some cb' \<rparr>) s)"
proof (cases "fetch E (after s)")
  case (Inl e)
  then show ?thesis
    using on_exception_forget [where xs = "[Fetch (after s)]" and ys = "[Fetch (after s)]" and E = E and cb = cb and cb' = cb' and s = s and e = e]
    by (simp add: fetch_and_process_def)
next
  case (Inr data)
  let ?r = "\<lambda>c. if results data \<noteq> [] then process_deals (E\<lparr> checkpoint_callback := Some c \<rparr>) s 0 0 (results data)
                 else ([], PageDone 0)"
  have r: "map forget_failure (fst (?r cb)) = map forget_failure (fst (?r cb'))"
    "snd (?r cb) = snd (?r cb')"
    using process_deals_forget [where E = E and cb = cb and cb' = cb' and s = s and i = 0 and n = 0 and ds = "results data"] by simp_all
  have fp: "\<And>c. fetch_and_process (E\<lparr> checkpoint_callback := Some c \<rparr>) s =
      (case snd (?r c) of
         PageRaised e \<Rightarrow> on_exception (E\<lparr> checkpoint_callback := Some c \<rparr>) s e (Fetch (after s) # fst (?r c))
       | PagePaused \<Rightarrow> (Fetch (after s) # fst (?r c), Stop Returned)
       | PageDone page_records \<Rightarrow>
           (Fetch (after s) # fst (?r c) @ fst (finish_page (E\<lparr> checkpoint_callback := Some c \<rparr>) s data page_records),
            snd (finish_page (E\<lparr> checkpoint_callback := Some c \<rparr>) s data page_records)))"
    unfolding fetch_and_process_def Let_def by (simp add: Inr)
  show ?thesis
  proof (cases "snd (?r cb)")
    case (PageDone n)
    then show ?thesis
      using r finish_page_forget [where E = E and cb = cb and cb' = cb' and s = s and data = data and n = n]
      by (simp only: fp r(2) [symmetric] PageDone page_result.case fst_conv snd_conv
            list.map map_append forget_failure.simps, simp?)
  next
    case PagePaused
    then show ?thesis
      using r
      by (simp only: fp r(2) [symmetric] PagePaused page_result.case fst_conv snd_conv
            list.map map_append forget_failure.simps, simp?)
  next
    case (PageRaised e)
    have "map forget_failure (Fetch (after s) # fst (?r cb))
        = map forget_failure (Fetch (after s) # fst (?r cb'))"
      using r(1) by simp
    from on_exception_forget [OF this, where E = E and cb = cb and cb' = cb' and s = s and e = e] show ?thesis
      by (simp only: fp r(2) [symmetric] PageRaised page_result.case)
  qed
qed

lemma loop_body_forget:
  "map forget_failure (fst (loop_body (E\<lparr> checkpoint_callback := Some cb \<rparr>) s)) =
   map forget_failure (fst (loop_body (E\<lparr> checkpoint_callback := Some cb' \<rparr>) s))
   \<and> snd (loop_body (E\<lparr> checkpoint_callback := Some cb \<rparr>) s) =
     snd (loop_body (E\<lparr> checkpoint_callback := Some cb' \<rparr>) s)"
  using fetch_and_process_forget [where E = E and cb = cb and cb' = cb' and s = s]
    on_exception_forget [where xs = "[]" and ys = "[]" and E = E and cb = cb and cb' = cb' and s = s]
  by (simp add: loop_body_def save_checkpoint_forget split: sum.splits)

lemma loop_forget:
  "map forget_failure (fst (get_hubspot_deals_loop (E\<lparr> checkpoint_callback := Some cb \<rparr>) s)) =
   map forget_failure (fst (get_hubspot_deals_loop (E\<lparr> checkpoint_callback := Some cb' \<rparr>) s))
   \<and> snd (get_hubspot_deals_loop (E\<lparr> checkpoint_callback := Some cb \<rparr>) s) =
     snd (get_hubspot_deals_loop (E\<lparr> checkpoint_callback := Some cb' \<rparr>) s)"
proof (induction "E\<lparr> checkpoint_callback := Some cb \<rparr>" s rule: get_hubspot_deals_loop.induct)
  case (1 s)
  let ?E = "E\<lparr> checkpoint_callback := Some cb \<rparr>"
  let ?E' = "E\<lparr> checkpoint_callback := Some cb' \<rparr>"
  show ?case
  proof (cases "page_count s < 1000")
    case False
    then show ?thesis
      by (subst (1 2 3 4) loop_unfold) simp
  next
    case True
    obtain evs st where b: "loop_body ?E s = (evs, st)" by (cases "loop_body ?E s")
    obtain evs' st' where b': "loop_body ?E' s = (evs', st')" by (cases "loop_body ?E' s")
    have same: "map forget_failure evs = map forget_failure evs'" and "st = st'"
      using loop_body_forget [where E = E and cb = cb and cb' = cb' and s = s] b b' by simp_all
    then have b'': "loop_body ?E' s = (evs', st)"
      using b' by simp
    show ?thesis
    proof (cases st)
      case (Stop out)
      then show ?thesis
        using True b b'' same by (subst (1 2 3 4) loop_unfold) simp
    next
      case (Continue s')
      have IH: "map forget_failure (fst (get_hubspot_deals_loop ?E s')) =
                map forget_failure (fst (get_hubspot_deals_loop ?E' s'))
              \<and> snd (get_hubspot_deals_loop ?E s') = snd (get_hubspot_deals_loop ?E' s')"
        using "1.hyps" [of evs st s'] True b Continue by simp
      show ?thesis
        using True b b'' same Continue IH
        by (subst (1 2 3 4) loop_unfold) (simp add: case_prod_beta)
    qed
  qed
qed

text \<open>
  C8. Whatever the checkpoint callback does at any of the six sites (it may raise on every
  call), the run hands it the same checkpoints in the same order, yields the same rows,
  makes the same requests and ends the same way (returning, or raising the same exception)
  as the run whose callback always succeeds. An exception of the callback never reaches the
  caller.
\<close>

theorem checkpoint_callback_failure_is_swallowed:
  "map forget_failure (fst (get_hubspot_deals (E\<lparr> checkpoint_callback := Some cb \<rparr>) resume_from)) =
   map forget_failure
     (fst (get_hubspot_deals (E\<lparr> checkpoint_callback := Some (\<lambda>cp. None) \<rparr>) resume_from))
   \<and> snd (get_hubspot_deals (E\<lparr> checkpoint_callback := Some cb \<rparr>) resume_from) =
     snd (get_hubspot_deals (E\<lparr> checkpoint_callback := Some (\<lambda>cp. None) \<rparr>) resume_from)
   \<and> yields (fst (get_hubspot_deals (E\<lparr> checkpoint_callback := Some cb \<rparr>) resume_from)) =
     yields (fst (get_hubspot_deals (E\<lparr> checkpoint_callback := Some (\<lambda>cp. None) \<rparr>) resume_from))
   \<and> fetches (fst (get_hubspot_deals (E\<lparr> checkpoint_callback := Some cb \<rparr>) resume_from)) =
     fetches (fst (get_hubspot_deals (E\<lparr> checkpoint_callback := Some (\<lambda>cp. None) \<rparr>) resume_from))
   \<and> checkpoints (fst (get_hubspot_deals (E\<lparr> checkpoint_callback := Some cb \<rparr>) resume_from)) =
     checkpoints (fst (get_hubspot_deals (E\<lparr> checkpoint_callback := Some (\<lambda>cp. None) \<rparr>) resume_from))"
proof -
  have y: "\<And>evs :: 'a event list. yields (map forget_failure evs) = yields evs"
  proof -
    fix evs :: "'a event list"
    show "yields (map forget_failure evs) = yields evs"
      by (induction evs rule: yields.induct) simp_all
  qed
  have f: "\<And>evs :: 'a event list. fetches (map forget_failure evs) = fetches evs"
  proof -
    fix evs :: "'a event list"
    show "fetches (map forget_failure evs) = fetches evs"
      by (induction evs rule: fetches.induct) simp_all
  qed
  have c: "\<And>evs :: 'a event list. checkpoints (map forget_failure evs) = checkpoints evs"
  proof -
    fix evs :: "'a event list"
    show "checkpoints (map forget_failure evs) = checkpoints evs"
      by (induction evs rule: checkpoints.induct) simp_all
  qed
  note l = loop_forget [where E = E and cb = cb and cb' = "\<lambda>cp. None"
      and s = "initial_state resume_from"]
  show ?thesis
    unfolding get_hubspot_deals_def
    using l y f c by metis
qed

text \<open>The statement at the two-page run whose callback raises on every call.\<close>

theorem checkpoint_callback_failure_is_swallowed_witness:
  "yields (fst (get_hubspot_deals
      (two_page_env\<lparr> checkpoint_callback := Some (\<lambda>cp. Some (GenericException ''disk full'')) \<rparr>)
      None)) =
   yields (fst (get_hubspot_deals (two_page_env\<lparr> checkpoint_callback := Some (\<lambda>cp. None) \<rparr>) None))
   \<and> snd (get_hubspot_deals
      (two_page_env\<lparr> checkpoint_callback := Some (\<lambda>cp. Some (GenericException ''disk full'')) \<rparr>)
      None) =
   snd (get_hubspot_deals (two_page_env\<lparr> checkpoint_callback := Some (\<lambda>cp. None) \<rparr>) None)"
  using checkpoint_callback_failure_is_swallowed
    [where E = two_page_env and cb = "\<lambda>cp. Some (GenericException ''disk full'')"
       and resume_from = None]
  by blast

section \<open>Resuming from a periodic checkpoint\<close>

lemma walk_snoc:
  "walk E s (xs @ [lp]) =
     (fst (walk E s xs) @ Fetch (after (snd (walk E s xs)))
        # map Yield (page_rows E (page_count (snd (walk E s xs)) + 1) (results lp))
        @ periodic_checkpoint E
            \<lparr> after = next_cursor lp, page_count = page_count (snd (walk E s xs)) + 1,
              total_records = total_records (snd (walk E s xs))
                + int (length (page_rows E (page_count (snd (walk E s xs)) + 1) (results lp))) \<rparr>
            (int (length (page_rows E (page_count (snd (walk E s xs)) + 1) (results lp)))) lp,
      \<lparr> after = next_cursor lp, page_count = page_count (snd (walk E s xs)) + 1,
        total_records = total_records (snd (walk E s xs))
          + int (length (page_rows E (page_count (snd (walk E s xs)) + 1) (results lp))) \<rparr>)"
  by (induction xs arbitrary: s) (simp_all add: Let_def)

lemma chain_snoc:
  "chain f c (xs @ [lp]) c' \<Longrightarrow>
   \<exists>m. chain f c xs m \<and> f m = Inr lp \<and> next_cursor lp = c'"
  by (induction xs arbitrary: c) (auto split: option.splits)

lemma page_rows_cong:
  assumes "bi E' = bi E" and "scan_id E' = scan_id E" and "tenant_id E' = tenant_id E"
    and "deal_stages E' = deal_stages E" and "pipelines E' = pipelines E"
  shows "page_rows E' pn ds = page_rows E pn ds"
  by (induction ds) (simp_all add: transform_of_def qualifies_def assms split: sum.splits)

lemma rows_of_pages_cong:
  assumes "bi E' = bi E" and "scan_id E' = scan_id E" and "tenant_id E' = tenant_id E"
    and "deal_stages E' = deal_stages E" and "pipelines E' = pipelines E"
  shows "rows_of_pages E' p pgs = rows_of_pages E p pgs"
  by (induction pgs arbitrary: p) (simp_all add: page_rows_cong [OF assms])

lemma transforms_ok_cong:
  assumes "bi E' = bi E" and "scan_id E' = scan_id E" and "tenant_id E' = tenant_id E"
  shows "transforms_ok E' ds = transforms_ok E ds"
  by (simp add: transforms_ok_def transform_of_def assms)

text \<open>The periodic checkpoint saved after the last of the pages \<open>pre\<close>.\<close>

lemma walk_saves_processing_checkpoint:
  assumes ch: "chain (fetch E) (after s) pre (Some ck)"
    and ne: "pre \<noteq> []"
    and m5: "(page_count s + int (length pre)) mod 5 = 0"
    and cb: "checkpoint_callback E \<noteq> None"
  shows "\<exists>cp\<in>set (checkpoints (fst (walk E s pre))).
           phase cp = hubspot_deals_processing \<and> cursor cp = Some ck
           \<and> page_number cp = page_count s + int (length pre)
           \<and> records_processed cp =
               total_records s + int (length (rows_of_pages E (page_count s) pre))"
proof -
  obtain xs lp where pre: "pre = xs @ [lp]"
    using ne by (cases pre rule: rev_cases) simp_all
  from chain_snoc [OF ch [unfolded pre]] obtain m where
    xs: "chain (fetch E) (after s) xs m" and nc: "next_cursor lp = Some ck"
    by blast
  let ?s1 = "snd (walk E s xs)"
  let ?rows = "page_rows E (page_count ?s1 + 1) (results lp)"
  let ?t = "\<lparr> after = next_cursor lp, page_count = page_count ?s1 + 1,
              total_records = total_records ?s1 + int (length ?rows) \<rparr>"
  have s1: "page_count ?s1 = page_count s + int (length xs)"
    "total_records ?s1 = total_records s + int (length (rows_of_pages E (page_count s) xs))"
    using walk_state [OF xs, of E] by simp_all
  have pc: "page_count ?t = page_count s + int (length pre)"
    by (simp add: s1 pre)
  have rows: "rows_of_pages E (page_count s) pre = rows_of_pages E (page_count s) xs @ ?rows"
    by (simp add: pre rows_of_pages_append s1)
  have "periodic_checkpoint E ?t (int (length ?rows)) lp =
          save_checkpoint E (processing_checkpoint ?t (int (length ?rows)) lp)"
    using m5 cb pc by (simp add: periodic_checkpoint_def)
  then have "checkpoints (periodic_checkpoint E ?t (int (length ?rows)) lp) =
          [processing_checkpoint ?t (int (length ?rows)) lp]"
    using cb by (simp add: checkpoints_save_checkpoint)
  then have "processing_checkpoint ?t (int (length ?rows)) lp
      \<in> set (checkpoints (fst (walk E s pre)))"
    unfolding pre walk_snoc fst_conv
    by (simp add: checkpoints_append checkpoints_map_Yield)
  moreover have "phase (processing_checkpoint ?t (int (length ?rows)) lp) = hubspot_deals_processing
      \<and> cursor (processing_checkpoint ?t (int (length ?rows)) lp) = Some ck
      \<and> page_number (processing_checkpoint ?t (int (length ?rows)) lp)
          = page_count s + int (length pre)
      \<and> records_processed (processing_checkpoint ?t (int (length ?rows)) lp)
          = total_records s + int (length (rows_of_pages E (page_count s) pre))"
    using pc by (simp add: processing_checkpoint_def nc rows s1)
  ultimately show ?thesis by blast
qed

text \<open>
  C2, for a processing checkpoint that names a next cursor. A first run that has processed
  the pages \<open>pre\<close> undisturbed, the last of them bringing the page count \<open>n\<close> to a multiple of
  five, has saved a processing checkpoint with the next cursor \<open>ck\<close>, the page number \<open>n\<close>
  and the count \<open>r\<close> of the rows yielded so far. A run with the same API, builtins and
  filters, seeded with exactly these three values and undisturbed over the remaining pages
  \<open>post\<close>, yields the qualifying rows of \<open>post\<close> and completes with the count \<open>r\<close> plus their
  number, which is the count of an uninterrupted run over \<open>pre @ post\<close>: nothing is counted
  twice and nothing is skipped.
\<close>

theorem resume_from_processing_checkpoint:
  assumes "s = initial_state resume_from"
    and "chain (fetch E) (after s) pre (Some ck)"
    and "pre \<noteq> []"
    and "quiet E (page_count s) (page_count s + int (length pre))"
    and "\<forall>pg\<in>set pre. transforms_ok E (results pg)"
    and "n = page_count s + int (length pre)" and "n mod 5 = 0"
    and "checkpoint_callback E \<noteq> None"
    and "r = total_records s + int (length (rows_of_pages E (page_count s) pre))"
    and "E2 = E\<lparr> check_cancel_callback := cc, check_pause_callback := pc,
                  checkpoint_callback := Some cb2 \<rparr>"
    and "chain_to_end (fetch E) (Some ck) post"
    and "quiet E2 n (n + int (length post))"
    and "\<forall>pg\<in>set post. transforms_ok E (results pg)"
    and "n + int (length post) \<le> 1000"
    and "resumed = get_hubspot_deals E2
           (Some \<lparr> resume_cursor = Some ck, resume_page_number = n,
                   resume_records_processed = r \<rparr>)"
  shows "(\<exists>cp\<in>set (checkpoints (fst (get_hubspot_deals E resume_from))).
            phase cp = hubspot_deals_processing \<and> cursor cp = Some ck
            \<and> page_number cp = n \<and> records_processed cp = r)
       \<and> snd resumed = Returned
       \<and> yields (fst resumed) = rows_of_pages E n post
       \<and> phase (last (checkpoints (fst resumed))) = hubspot_deals_completed
       \<and> records_processed (last (checkpoints (fst resumed)))
           = r + int (length (rows_of_pages E n post))
       \<and> records_processed (last (checkpoints (fst resumed)))
           = total_records s + int (length (rows_of_pages E (page_count s) (pre @ post)))"
proof -
  have post_ne: "post \<noteq> []"
    using assms(11) by (cases post) simp_all
  have le: "page_count s + int (length pre) \<le> 1000"
    using assms(6,14) by simp
  have w: "get_hubspot_deals E resume_from =
      (fst (walk E s pre) @ fst (get_hubspot_deals_loop E (snd (walk E s pre))),
       snd (get_hubspot_deals_loop E (snd (walk E s pre))))"
    using loop_walk [OF assms(2,4,5) le] by (simp add: get_hubspot_deals_def assms(1))
  have m5: "(page_count s + int (length pre)) mod 5 = 0"
    using assms(6,7) by simp
  from walk_saves_processing_checkpoint [OF assms(2,3) m5 assms(8)]
  have first: "\<exists>cp\<in>set (checkpoints (fst (get_hubspot_deals E resume_from))).
            phase cp = hubspot_deals_processing \<and> cursor cp = Some ck
            \<and> page_number cp = n \<and> records_processed cp = r"
    unfolding w fst_conv checkpoints_append assms(6,9) by auto
  let ?s2 = "initial_state (Some \<lparr> resume_cursor = Some ck, resume_page_number = n,
                   resume_records_processed = r \<rparr>)"
  have s2: "after ?s2 = Some ck" "page_count ?s2 = n" "total_records ?s2 = r"
    by (simp_all add: initial_state_def)
  have same: "bi E2 = bi E" "scan_id E2 = scan_id E" "tenant_id E2 = tenant_id E"
    "deal_stages E2 = deal_stages E" "pipelines E2 = pipelines E"
    and f2: "fetch E2 = fetch E" and cb2: "checkpoint_callback E2 \<noteq> None"
    by (simp_all add: assms(10))
  have ch2: "chain_to_end (fetch E2) (after ?s2) post"
    using assms(11) by (simp add: s2 f2)
  have q2: "quiet E2 (page_count ?s2) (page_count ?s2 + int (length post))"
    using assms(12) by (simp add: s2)
  have ok2: "\<forall>pg\<in>set post. transforms_ok E2 (results pg)"
    using assms(13) by (simp add: transforms_ok_cong [OF same(1,2,3)])
  have le2: "page_count ?s2 + int (length post) \<le> 1000"
    using assms(14) by (simp add: s2)
  note rc = run_complete [OF ch2 q2 ok2 le2]
  have res: "resumed = get_hubspot_deals_loop E2 ?s2"
    by (simp add: assms(15) get_hubspot_deals_def)
  have rows2: "rows_of_pages E2 n post = rows_of_pages E n post"
    by (rule rows_of_pages_cong [OF same])
  have all: "rows_of_pages E (page_count s) (pre @ post)
      = rows_of_pages E (page_count s) pre @ rows_of_pages E n post"
    by (simp add: rows_of_pages_append assms(6))
  have second: "snd resumed = Returned
       \<and> yields (fst resumed) = rows_of_pages E n post
       \<and> phase (last (checkpoints (fst resumed))) = hubspot_deals_completed
       \<and> records_processed (last (checkpoints (fst resumed)))
           = r + int (length (rows_of_pages E n post))"
    using rc(1,2) rc(4) [OF cb2] by (simp add: res s2 rows2)
  then have "records_processed (last (checkpoints (fst resumed)))
           = total_records s + int (length (rows_of_pages E (page_count s) (pre @ post)))"
    by (simp add: all assms(9))
  with first second show ?thesis by blast
qed

text \<open>The theorem applies to the six-page API: a fresh run saves the checkpoint after five
  pages, and the run resumed from it processes the sixth.\<close>

lemma page_rows_deal_plain: "length (page_rows (demo_env f) pn [deal_plain]) = 1"
proof -
  have "\<not> isl (transform_of (demo_env f) pn deal_plain)"
    by (rule transform_deal_plain)
  then obtain r where "transform_of (demo_env f) pn deal_plain = Inr r"
    by (cases "transform_of (demo_env f) pn deal_plain") simp_all
  then show ?thesis
    by (simp add: qualifies_def filtered_out_def demo_env_def)
qed

lemma six_fields:
  "bi six_env = demo_builtins" "scan_id six_env = ''scan-1''" "tenant_id six_env = None"
  "fetch six_env = demo_api (\<lambda>k. [deal_plain]) 6" "checkpoint_callback six_env \<noteq> None"
  by (simp_all add: six_env_def demo_env_def)

lemma six_pages_ok:
  "\<forall>pg\<in>set (map (demo_page (\<lambda>k. [deal_plain]) 6) ks). transforms_ok six_env (results pg)"
  using transform_deal_plain [of "demo_api (\<lambda>k. [deal_plain]) 6" 0]
  by (simp add: demo_page_def transforms_ok_def six_env_def)

theorem resume_from_processing_checkpoint_witness:
  "records_processed (last (checkpoints (fst (get_hubspot_deals six_resumed_env
      (Some \<lparr> resume_cursor = Some ''ccccc'', resume_page_number = 5,
              resume_records_processed = int (length (rows_of_pages six_env 0 six_first_five)) \<rparr>)))))
   = int (length (rows_of_pages six_env 0 six_first_five))
     + int (length (rows_of_pages six_env 5 [demo_page (\<lambda>k. [deal_plain]) 6 5]))"
proof -
  let ?s = "initial_state None"
  let ?post = "[demo_page (\<lambda>k. [deal_plain]) 6 5]"
  have s: "after ?s = None" "page_count ?s = 0" "total_records ?s = 0"
    by (simp_all add: initial_state_def)
  have rep: "replicate 5 CHR ''c'' = ''ccccc''"
    by code_simp
  have ck: "cursor_of 5 = Some ''ccccc''"
    by (simp add: cursor_of_def rep)
  have ch: "chain (fetch six_env) (after ?s) six_first_five (Some ''ccccc'')"
    using demo_chain [of 0 5 6 "\<lambda>k. [deal_plain]"]
    by (simp add: s six_fields six_first_five_def cursor_of_def rep del: upt_Suc)
  have ne: "six_first_five \<noteq> []"
    by (simp add: six_first_five_def)
  have len: "int (length six_first_five) = 5"
    by (simp add: six_first_five_def)
  have q: "quiet six_env (page_count ?s) (page_count ?s + int (length six_first_five))"
    unfolding six_env_def by (rule quiet_demo_env)
  have ok: "\<forall>pg\<in>set six_first_five. transforms_ok six_env (results pg)"
    unfolding six_first_five_def by (rule six_pages_ok)
  have n: "(5::int) = page_count ?s + int (length six_first_five)"
    by (simp add: s len)
  have m5: "(5::int) mod 5 = 0" by simp
  have r: "int (length (rows_of_pages six_env 0 six_first_five))
      = total_records ?s + int (length (rows_of_pages six_env (page_count ?s) six_first_five))"
    by (simp add: s)
  have post: "chain_to_end (fetch six_env) (Some ''ccccc'') ?post"
    using demo_chain_to_end [of 5 6 "\<lambda>k. [deal_plain]"]
    by (simp add: six_fields ck upt_conv_Cons)
  have q2: "quiet six_resumed_env 5 (5 + int (length ?post))"
    by (simp add: quiet_def poll_cancel_def poll_pause_def six_resumed_env_def)
  have ok2: "\<forall>pg\<in>set ?post. transforms_ok six_env (results pg)"
    using six_pages_ok [of "[5]"] by simp
  have le: "5 + int (length ?post) \<le> 1000" by simp
  note w = resume_from_processing_checkpoint
      [OF refl ch ne q ok n m5 six_fields(5) r six_resumed_env_def post q2 ok2 le refl]
  show ?thesis
    using w [THEN conjunct2, THEN conjunct2, THEN conjunct2, THEN conjunct2, THEN conjunct1]
    by (simp del: rows_of_pages.simps)
qed

text \<open>The periodic checkpoint saved after the last page of the data names no cursor.\<close>

lemma last_page_processing_checkpoint:
  assumes ch: "chain (fetch E) (after s) pre c'"
    and f: "fetch E c' = Inr lp" and nc: "next_cursor lp = None"
    and q: "quiet E (page_count s) (page_count s + int (length pre) + 1)"
    and ok: "\<forall>pg\<in>set pre. transforms_ok E (results pg)" and oklast: "transforms_ok E (results lp)"
    and lt: "page_count s + int (length pre) < 1000"
    and m5: "(page_count s + int (length pre) + 1) mod 5 = 0"
    and cb: "checkpoint_callback E \<noteq> None"
  shows "\<lparr> phase = hubspot_deals_processing,
           records_processed =
             total_records s + int (length (rows_of_pages E (page_count s) (pre @ [lp]))),
           cursor = None, page_number = page_count s + int (length pre) + 1, batch_size = 100,
           payload = ProcessingData (page_count s + int (length pre) + 1)
             (int (length (page_rows E (page_count s + int (length pre) + 1) (results lp))))
             False \<rparr>
         \<in> set (checkpoints (fst (get_hubspot_deals_loop E s)))"
proof -
  let ?s' = "snd (walk E s pre)"
  let ?rows = "page_rows E (page_count ?s' + 1) (results lp)"
  let ?t = "?s'\<lparr> total_records := total_records ?s' + int (length ?rows),
                 page_count := page_count ?s' + 1 \<rparr>"
  have pc: "page_count ?s' = page_count s + int (length pre)"
    and tr: "total_records ?s' = total_records s + int (length (rows_of_pages E (page_count s) pre))"
    and af: "after ?s' = c'"
    using walk_state [OF ch, of E] by simp_all
  have qpre: "quiet E (page_count s) (page_count s + int (length pre))"
    using quiet_mono [OF q] by simp
  have w: "get_hubspot_deals_loop E s =
           (fst (walk E s pre) @ fst (get_hubspot_deals_loop E ?s'),
            snd (get_hubspot_deals_loop E ?s'))"
    by (rule loop_walk [OF ch qpre ok]) (use lt in simp)
  have small: "page_count ?s' < 1000" using pc lt by simp
  have inr: "page_count s \<le> page_count ?s'"
    "page_count ?s' < page_count s + int (length pre) + 1"
    using pc by simp_all
  note qa = quiet_at [OF q inr]
  have fin: "get_hubspot_deals_loop E ?s' =
      (Fetch (after ?s') # map Yield ?rows
         @ periodic_checkpoint E ?t (int (length ?rows)) lp
         @ save_checkpoint E (final_checkpoint ?t),
       Returned)"
    by (rule loop_last_page [OF small qa(1) qa(2) _ _ oklast nc]) (simp_all add: af f qa(3))
  have "periodic_checkpoint E ?t (int (length ?rows)) lp =
          save_checkpoint E (processing_checkpoint ?t (int (length ?rows)) lp)"
    using m5 cb pc by (simp add: periodic_checkpoint_def)
  then have "checkpoints (periodic_checkpoint E ?t (int (length ?rows)) lp) =
          [processing_checkpoint ?t (int (length ?rows)) lp]"
    using cb by (simp add: checkpoints_save_checkpoint)
  then have "processing_checkpoint ?t (int (length ?rows)) lp
      \<in> set (checkpoints (fst (get_hubspot_deals_loop E s)))"
    by (subst w, subst fin) (simp add: checkpoints_append checkpoints_map_Yield)
  moreover have "processing_checkpoint ?t (int (length ?rows)) lp =
      \<lparr> phase = hubspot_deals_processing,
           records_processed =
             total_records s + int (length (rows_of_pages E (page_count s) (pre @ [lp]))),
           cursor = None, page_number = page_count s + int (length pre) + 1, batch_size = 100,
           payload = ProcessingData (page_count s + int (length pre) + 1)
             (int (length (page_rows E (page_count s + int (length pre) + 1) (results lp))))
             False \<rparr>"
    by (simp add: processing_checkpoint_def nc pc tr rows_of_pages_append)
  ultimately show ?thesis by simp
qed

lemma five_fields:
  "fetch five_env = demo_api five_content 5" "checkpoint_callback five_env \<noteq> None"
  by (simp_all add: five_env_def demo_env_def)

lemma five_pages_ok:
  "\<forall>pg\<in>set (map (demo_page five_content 5) ks). transforms_ok five_env (results pg)"
  using transform_deal_plain [of "demo_api five_content 5" 0]
  by (simp add: demo_page_def five_content_def transforms_ok_def five_env_def)

lemma five_pages_split:
  "five_pages = map (demo_page five_content 5) [0..<4] @ [demo_page five_content 5 4]"
proof -
  have "[0..<5] = [0..<4] @ [4::nat]"
    using upt_Suc_append [of 0 4] by simp
  then show ?thesis by (simp add: five_pages_def)
qed

lemma five_rows: "length (rows_of_pages five_env p five_pages) = 1"
proof -
  have "[0..<5] = 0 # [1..<5]"
    by (simp add: upt_conv_Cons)
  then have split: "five_pages = demo_page five_content 5 0 # map (demo_page five_content 5) [1..<5]"
    by (simp add: five_pages_def)
  have "\<forall>pg\<in>set (map (demo_page five_content 5) [1..<5]). results pg = []"
    by (auto simp: demo_page_def five_content_def)
  then have "rows_of_pages five_env (p + 1) (map (demo_page five_content 5) [1..<5]) = []"
    by (rule rows_of_empty_pages)
  moreover have "results (demo_page five_content 5 0) = [deal_plain]"
    by (simp add: demo_page_def five_content_def)
  ultimately show ?thesis
    unfolding split using page_rows_deal_plain [of "demo_api five_content 5" "p + 1"]
    by (simp add: five_env_def del: page_rows.simps)
qed

text \<open>
  For a processing checkpoint without a cursor the statement fails. Over five pages with one
  record on the first, a fresh run saves, after the fifth and last page, a processing
  checkpoint with count 1 and no cursor. Every page is processed at that point, yet the run
  seeded with exactly its cursor, page number and count starts again from the first page and
  completes with count 2.
\<close>

theorem resume_from_last_processing_checkpoint_recounts:
  "\<lparr> phase = hubspot_deals_processing, records_processed = 1, cursor = None,
     page_number = 5, batch_size = 100, payload = ProcessingData 5 0 False \<rparr>
     \<in> set (checkpoints (fst (get_hubspot_deals five_env None)))
   \<and> phase (last (checkpoints (fst (get_hubspot_deals five_env
        (Some \<lparr> resume_cursor = None, resume_page_number = 5,
                resume_records_processed = 1 \<rparr>))))) = hubspot_deals_completed
   \<and> records_processed (last (checkpoints (fst (get_hubspot_deals five_env
        (Some \<lparr> resume_cursor = None, resume_page_number = 5,
                resume_records_processed = 1 \<rparr>))))) = 2"
proof -
  let ?pre = "map (demo_page five_content 5) [0..<4]"
  let ?lp = "demo_page five_content 5 4"
  let ?s = "initial_state None"
  let ?r = "\<lparr> resume_cursor = None, resume_page_number = 5, resume_records_processed = 1 \<rparr>"
  have s: "after ?s = None" "page_count ?s = 0" "total_records ?s = 0"
    by (simp_all add: initial_state_def)
  have ch: "chain (fetch five_env) (after ?s) ?pre (cursor_of 4)"
    using demo_chain [of 0 4 5 five_content]
    by (simp add: s five_fields cursor_of_def del: upt_Suc)
  have f: "fetch five_env (cursor_of 4) = Inr ?lp"
    by (simp add: five_fields demo_api_cursor_of)
  have nc: "next_cursor ?lp = None"
    by (simp add: next_cursor_demo_page)
  have q: "quiet five_env (page_count ?s) (page_count ?s + int (length ?pre) + 1)"
    unfolding five_env_def by (rule quiet_demo_env)
  have oklast: "transforms_ok five_env (results ?lp)"
    using five_pages_ok [of "[4]"] by simp
  have lt: "page_count ?s + int (length ?pre) < 1000"
    by (simp add: s)
  have m5: "(page_count ?s + int (length ?pre) + 1) mod 5 = 0"
    by (simp add: s)
  have last_empty: "page_rows five_env (page_count ?s + int (length ?pre) + 1) (results ?lp) = []"
    by (simp add: demo_page_def five_content_def)
  have first: "\<lparr> phase = hubspot_deals_processing, records_processed = 1, cursor = None,
     page_number = 5, batch_size = 100, payload = ProcessingData 5 0 False \<rparr>
     \<in> set (checkpoints (fst (get_hubspot_deals five_env None)))"
    using last_page_processing_checkpoint
            [OF ch f nc q five_pages_ok oklast lt m5 five_fields(2)]
    unfolding last_empty five_pages_split [symmetric] five_rows get_hubspot_deals_def
    by (simp add: s)
  let ?s2 = "initial_state (Some ?r)"
  have s2: "after ?s2 = None" "page_count ?s2 = 5" "total_records ?s2 = 1"
    by (simp_all add: initial_state_def)
  have ch2: "chain_to_end (fetch five_env) (after ?s2) five_pages"
    using demo_chain_to_end [of 0 5 five_content]
    by (simp add: s2 five_fields five_pages_def cursor_of_def del: upt_Suc)
  have q2: "quiet five_env (page_count ?s2) (page_count ?s2 + int (length five_pages))"
    unfolding five_env_def by (rule quiet_demo_env)
  have ok2: "\<forall>pg\<in>set five_pages. transforms_ok five_env (results pg)"
    unfolding five_pages_def by (rule five_pages_ok)
  have le2: "page_count ?s2 + int (length five_pages) \<le> 1000"
    by (simp add: s2 five_pages_def)
  note rc = run_complete(4) [OF ch2 q2 ok2 le2 five_fields(2)]
  have "phase (last (checkpoints (fst (get_hubspot_deals_loop five_env ?s2))))
          = hubspot_deals_completed
      \<and> records_processed (last (checkpoints (fst (get_hubspot_deals_loop five_env ?s2)))) = 2"
    using rc unfolding five_rows by (simp add: s2)
  then show ?thesis
    using first by (simp add: get_hubspot_deals_def)
qed

section \<open>The retry policy of the client\<close>









section \<open>Field values that do not parse\<close>

lemma mixed_run:
  "snd (get_hubspot_deals mixed_env None) = Raised ValueError"
  "length (yields (fst (get_hubspot_deals mixed_env None))) = 2"
proof -
  let ?pgs = "[demo_page mixed_content 2 0]"
  let ?pg = "demo_page mixed_content 2 1"
  let ?s = "initial_state None"
  define sp where "sp = \<lparr> after = cursor_of 1,
      page_count = page_count ?s + int (length ?pgs),
      total_records = total_records ?s + int (length (rows_of_pages mixed_env (page_count ?s) ?pgs)) \<rparr>"
  have s: "after ?s = None" "page_count ?s = 0" "total_records ?s = 0"
    by (simp_all add: initial_state_def)
  have sp: "after sp = cursor_of 1" "page_count sp = 1"
    by (simp_all add: sp_def s)
  have ch: "chain (fetch mixed_env) (after ?s) ?pgs (cursor_of 1)"
    using mixed_first_page_chain by (simp add: s env_fields)
  have q: "quiet mixed_env (page_count ?s) (page_count ?s + int (length ?pgs))"
    unfolding mixed_env_def by (rule quiet_demo_env)
  have ok: "\<forall>pg\<in>set ?pgs. transforms_ok mixed_env (results pg)"
    by (rule first_page_ok) (simp_all add: env_fields)
  have le: "page_count ?s + int (length ?pgs) \<le> 1000"
    by (simp add: s)
  note pre = run_prefix [OF refl ch q ok le sp_def]
  have tk: "take 1 (results ?pg) = [deal_plain]"
    by (simp add: demo_page_def mixed_content_def)
  have ok1: "transforms_ok mixed_env [deal_plain]"
    using first_page_ok [of mixed_env]
    by (simp add: env_fields demo_page_def mixed_content_def)
  have bad: "transform_of mixed_env 2 deal_bad_forecast = Inl ValueError"
    using transform_deal_bad_forecast [of "demo_api mixed_content 2" 2]
    by (simp add: mixed_env_def)
  have fin: "get_hubspot_deals_loop mixed_env sp =
      (Fetch (after sp) # map Yield (page_rows mixed_env (page_count sp + 1) (take 1 (results ?pg)))
         @ save_checkpoint mixed_env (error_checkpoint sp ValueError),
       Raised ValueError)"
    by (rule loop_transform_raises [where j = 1])
       (simp_all add: sp ok1 bad poll_cancel_def poll_pause_def env_fields demo_api_cursor_of
          demo_page_def mixed_content_def)
  show "snd (get_hubspot_deals mixed_env None) = Raised ValueError"
    by (simp add: pre fin)
  have one: "length (page_rows mixed_env pn [deal_plain]) = 1" for pn
    using page_rows_deal_plain [of "demo_api mixed_content 2" pn] by (simp add: mixed_env_def)
  have "length (rows_of_pages mixed_env 0 ?pgs) = 1"
    using one [of 1] by (simp add: demo_page_def mixed_content_def del: page_rows.simps)
  moreover have tk': "take (Suc 0) (results (demo_page mixed_content 2 (Suc 0))) = [deal_plain]"
    using tk by simp
  have "yields (fst (get_hubspot_deals mixed_env None)) =
      rows_of_pages mixed_env 0 ?pgs @ page_rows mixed_env 2 [deal_plain]"
    unfolding pre fin fst_conv yields_append walk_yields
    by (simp add: yields_append yields_map_Yield yields_save_checkpoint tk' sp s
          del: walk.simps page_rows.simps rows_of_pages.simps)
  ultimately show "length (yields (fst (get_hubspot_deals mixed_env None))) = 2"
    using one [of 2] by simp
qed

text \<open>
  C5 at concrete records. An amount of \<open>"N/A"\<close> becomes \<open>None\<close> inside its handler and the
  record is transformed. The same text in the forecast amount, the forecast probability or
  the number of associated contacts is parsed with no handler around it: the transformation
  raises \<open>ValueError\<close>. In the two-page run whose second page holds such a record after a
  good one, two of the three records are yielded and the run raises.
\<close>

theorem unparseable_forecast_amount_raises:
  "transform_hubspot_deal demo_builtins deal_bad_forecast ''scan-1'' None 1 = Inl ValueError
   \<and> transform_hubspot_deal demo_builtins deal_bad_probability ''scan-1'' None 1 = Inl ValueError
   \<and> transform_hubspot_deal demo_builtins deal_bad_contacts ''scan-1'' None 1 = Inl ValueError
   \<and> map_sum id r_amount (transform_hubspot_deal demo_builtins deal_plain ''scan-1'' None 1)
       = Inr None
   \<and> snd (get_hubspot_deals mixed_env None) = Raised ValueError
   \<and> length (yields (fst (get_hubspot_deals mixed_env None))) = 2"
proof -
  have na: "decimal ''N/A'' = None"
    by (simp add: decimal_def)
  have 1: "transform_hubspot_deal demo_builtins deal_bad_forecast ''scan-1'' None 1 = Inl ValueError"
    by (simp add: transform_hubspot_deal_def bind_err_def demo_builtins_def
        deal_bad_forecast_def pget_def except_value_type_def parse_date_def
        int_if_present_def float_if_present_def demo_float_def na)
  have 2: "transform_hubspot_deal demo_builtins deal_bad_probability ''scan-1'' None 1 = Inl ValueError"
    by (simp add: transform_hubspot_deal_def bind_err_def demo_builtins_def
        deal_bad_probability_def pget_def except_value_type_def parse_date_def
        int_if_present_def float_if_present_def demo_float_def na)
  have 3: "transform_hubspot_deal demo_builtins deal_bad_contacts ''scan-1'' None 1 = Inl ValueError"
    by (simp add: transform_hubspot_deal_def bind_err_def demo_builtins_def
        deal_bad_contacts_def pget_def except_value_type_def parse_date_def
        int_if_present_def float_if_present_def demo_int_def na)
  have 4: "map_sum id r_amount (transform_hubspot_deal demo_builtins deal_plain ''scan-1'' None 1)
       = Inr None"
    by (simp add: transform_hubspot_deal_def bind_err_def demo_builtins_def
        deal_plain_def pget_def except_value_type_def parse_date_def
        int_if_present_def float_if_present_def demo_float_def na)
  show ?thesis
    using 1 2 3 4 mixed_run by simp
qed

end
